theory Spec2Isabelle
  imports Main "HOL-Library.Char_ord" "HOL-Library.List_Lexorder" "HOL-Library.Multiset"
begin

section \<open>The version table row\<close>

text \<open>
  The Go struct \<^verbatim>\<open>tableRow\<close> has three string fields. Go strings are byte
  sequences, modelled as \<^typ>\<open>string\<close>; the empty string is the zero value.
\<close>

record tableRow =
  Version :: string
  Runtime :: string
  Date :: string

definition emptyRow :: tableRow where
  "emptyRow = \<lparr>Version = [], Runtime = [], Date = []\<rparr>"

text \<open>
  \<^verbatim>\<open>cmp.Or(vals...)\<close> of the Go standard library returns the first of its
  arguments that is not the zero value, and the zero value when there is none.
\<close>

fun cmpOr :: "string list \<Rightarrow> string" where
  "cmpOr [] = []"
| "cmpOr (v # vs) = (if v \<noteq> [] then v else cmpOr vs)"

text \<open>
  \<^verbatim>\<open>func (t tableRow) merge(other tableRow) tableRow\<close>: the receiver is the
  first argument, \<^verbatim>\<open>other\<close> the second. Each field is
  \<^verbatim>\<open>cmp.Or(other.F, t.F)\<close>.
\<close>

definition merge :: "tableRow \<Rightarrow> tableRow \<Rightarrow> tableRow" where
  "merge t other =
     \<lparr>Version = cmpOr [Version other, Version t],
      Runtime = cmpOr [Runtime other, Runtime t],
      Date = cmpOr [Date other, Date t]\<rparr>"

section \<open>Errors and panics\<close>

text \<open>
  Every error value the program creates itself has a constructor of its own; an error
  handed back by a library or operating-system call is a \<open>LibError\<close> carrying a
  description, and \<open>EOF\<close> is the sentinel \<^verbatim>\<open>io.EOF\<close>. A run-time panic is not an error value: it unwinds the program, so the
  functions that can panic return a \<open>fault\<close>.
\<close>

datatype error =
    NotEnoughFields
  | FailedToParseVersion
  | NoAssetFound
  | NoBinaryFound
  | NoVersion
  | EOF
  | LibError string

datatype fault = Panic | Failed error

section \<open>Reading a row from strings\<close>

text \<open>
  \<^verbatim>\<open>strings.Trim(s, cutset)\<close> removes every leading and every trailing byte
  that occurs in the cutset.
\<close>

definition trim :: "string \<Rightarrow> string \<Rightarrow> string" where
  "trim s cutset =
     rev (dropWhile (\<lambda>c. c \<in> set cutset) (rev (dropWhile (\<lambda>c. c \<in> set cutset) s)))"

definition fromStrings :: "string list \<Rightarrow> error + tableRow" where
  "fromStrings ss =
     (if length ss < 3 then Inl NotEnoughFields
      else Inr \<lparr>Version = trim (ss ! 0) ''*'',
                Runtime = trim (ss ! 1) ''*'',
                Date = trim (ss ! 2) ''*''\<rparr>)"

section \<open>The version banner parser\<close>

text \<open>
  The regular expressions of Go's \<^verbatim>\<open>regexp\<close> package, as far as the pattern
  of \<^verbatim>\<open>fromVersion\<close> uses them: literals, \<^verbatim>\<open>\d\<close>, \<^verbatim>\<open>.\<close>, concatenation,
  the greedy operators \<^verbatim>\<open>*\<close>, \<^verbatim>\<open>+\<close>, \<^verbatim>\<open>?\<close>, the counted repetition
  \<^verbatim>\<open>{n}\<close> and numbered capture groups. Go returns the leftmost match and, among the
  matches starting there, the one a backtracking search prefers. The matcher below
  lists all matches from a position in that preference order: each entry is the input
  left over together with the groups captured so far.
\<close>

datatype regex =
    Lit char
  | Digit
  | AnyChar
  | Cat regex regex
  | Star regex
  | Plus regex
  | Opt regex
  | Times nat regex
  | Cap nat regex

type_synonym mstate = "string \<times> (nat \<times> string) list"

text \<open>
  Greedy iteration of a matcher \<open>f\<close>: one more round is preferred to stopping. A round
  has to consume input, so the length of the input bounds the number of rounds.
\<close>

fun iter :: "nat \<Rightarrow> (mstate \<Rightarrow> mstate list) \<Rightarrow> mstate \<Rightarrow> mstate list" where
  "iter 0 f st = [st]"
| "iter (Suc n) f st =
     concat (map (iter n f) (filter (\<lambda>st'. length (fst st') < length (fst st)) (f st))) @ [st]"

definition isDigit :: "char \<Rightarrow> bool" where
  "isDigit c = (c \<in> set ''0123456789'')"

fun rmatch :: "regex \<Rightarrow> mstate \<Rightarrow> mstate list" where
  "rmatch (Lit c) (s, cs) =
     (case s of [] \<Rightarrow> [] | x # xs \<Rightarrow> if x = c then [(xs, cs)] else [])"
| "rmatch Digit (s, cs) =
     (case s of [] \<Rightarrow> [] | x # xs \<Rightarrow> if isDigit x then [(xs, cs)] else [])"
| "rmatch AnyChar (s, cs) =
     (case s of [] \<Rightarrow> [] | x # xs \<Rightarrow> if x \<noteq> CHR 0x0A then [(xs, cs)] else [])"
| "rmatch (Cat a b) st = concat (map (rmatch b) (rmatch a st))"
| "rmatch (Star a) st = iter (length (fst st)) (rmatch a) st"
| "rmatch (Plus a) st =
     concat (map (\<lambda>st'. iter (length (fst st')) (rmatch a) st') (rmatch a st))"
| "rmatch (Opt a) st = rmatch a st @ [st]"
| "rmatch (Times n a) st = ((\<lambda>sts. concat (map (rmatch a) sts)) ^^ n) [st]"
| "rmatch (Cap i a) (s, cs) =
     map (\<lambda>(s', cs'). (s', (i, take (length s - length s') s) # cs')) (rmatch a (s, cs))"

fun lits :: "string \<Rightarrow> regex \<Rightarrow> regex" where
  "lits [] r = r"
| "lits (c # cs) r = Cat (Lit c) (lits cs r)"

text \<open>
  The pattern compiled in \<^verbatim>\<open>fromVersion\<close>:
  \<^verbatim>\<open>syncthing (v\d+\.\d+\.\d+).*(go\d+\.\d+(?:\.\d+)?).*(\d{4}-\d{2}-\d{2}) \<close>
  (it ends with a space).
\<close>

definition versionExp :: regex where
  "versionExp =
     lits ''syncthing ''
      (Cat (Cap 1 (Cat (Lit CHR ''v'') (Cat (Plus Digit) (Cat (Lit CHR ''.'')
              (Cat (Plus Digit) (Cat (Lit CHR ''.'') (Plus Digit)))))))
      (Cat (Star AnyChar)
      (Cat (Cap 2 (lits ''go'' (Cat (Plus Digit) (Cat (Lit CHR ''.'')
              (Cat (Plus Digit) (Opt (Cat (Lit CHR ''.'') (Plus Digit))))))))
      (Cat (Star AnyChar)
      (Cat (Cap 3 (Cat (Times 4 Digit) (Cat (Lit CHR ''-'')
              (Cat (Times 2 Digit) (Cat (Lit CHR ''-'') (Times 2 Digit))))))
           (Lit CHR '' ''))))))"

text \<open>The search is not anchored: the first start position with a match wins.\<close>

fun findFrom :: "regex \<Rightarrow> string \<Rightarrow> (string \<times> mstate) option" where
  "findFrom re [] = (case rmatch re ([], []) of [] \<Rightarrow> None | m # _ \<Rightarrow> Some ([], m))"
| "findFrom re (c # s) =
     (case rmatch re (c # s, []) of [] \<Rightarrow> findFrom re s | m # _ \<Rightarrow> Some (c # s, m))"

definition group :: "(nat \<times> string) list \<Rightarrow> nat \<Rightarrow> string" where
  "group cs i = (case map_of cs i of None \<Rightarrow> [] | Some g \<Rightarrow> g)"

text \<open>
  \<^verbatim>\<open>FindStringSubmatch\<close> returns nil when nothing matches, and otherwise the
  whole match followed by the text of each of the pattern's groups.
\<close>

definition findStringSubmatch :: "regex \<Rightarrow> nat \<Rightarrow> string \<Rightarrow> string list" where
  "findStringSubmatch re ngroups s =
     (case findFrom re s of
        None \<Rightarrow> []
      | Some (start, (rest, cs)) \<Rightarrow>
          take (length start - length rest) start # map (group cs) [1..<Suc ngroups])"

definition fromVersion :: "string \<Rightarrow> error + tableRow" where
  "fromVersion ver =
     (let m = findStringSubmatch versionExp 3 ver
      in if length m < 3 then Inl FailedToParseVersion
         else Inr \<lparr>Version = m ! 1, Runtime = m ! 2, Date = m ! 3\<rparr>)"

text \<open>The banner quoted in the comment of \<^verbatim>\<open>fromVersion\<close>.\<close>

definition banner :: string where
  "banner = ''syncthing v1.23.1-rc.1 '' @ [CHR 0x22] @ ''Fermium Flea'' @ [CHR 0x22] @
     '' (go1.19.5 darwin-arm64) teamcity@build.syncthing.net 2023-01-12 03:30:17 UTC [stnoupgrade]''"

section \<open>Saving the table: sorting and emphasis\<close>

text \<open>
  \<^verbatim>\<open>writeTable\<close> first sorts the rows with \<^verbatim>\<open>sort.Slice\<close>, newest date first
  and, on equal dates, greater version first. Go compares strings byte by byte, which is
  the lexicographic order on \<^typ>\<open>string\<close>.
\<close>

definition rowLess :: "tableRow \<Rightarrow> tableRow \<Rightarrow> bool" where
  "rowLess a b = (if Date a = Date b then Version a > Version b else Date a > Date b)"

text \<open>
  \<^verbatim>\<open>sort.Slice\<close> is not stable: it leaves the rows in some order in which no row
  is \<open>rowLess\<close> than a row before it. The model sorts by insertion; rows that agree on
  both date and version may come out in another order in Go.
\<close>

fun insertRow :: "tableRow \<Rightarrow> tableRow list \<Rightarrow> tableRow list" where
  "insertRow r [] = [r]"
| "insertRow r (x # xs) = (if rowLess x r then x # insertRow r xs else r # x # xs)"

definition sortRows :: "tableRow list \<Rightarrow> tableRow list" where
  "sortRows rows = foldr insertRow rows []"

text \<open>\<^verbatim>\<open>strings.Count(s, ".")\<close> and \<^verbatim>\<open>strings.LastIndex(s, ".")\<close> for a separator
  of one byte; the index is \<open>-1\<close> when the byte does not occur.\<close>

definition countByte :: "string \<Rightarrow> char \<Rightarrow> nat" where
  "countByte s c = length (filter (\<lambda>x. x = c) s)"

fun indexByte :: "string \<Rightarrow> char \<Rightarrow> int" where
  "indexByte [] c = -1"
| "indexByte (x # xs) c =
     (if x = c then 0 else (let i = indexByte xs c in if i < 0 then -1 else i + 1))"

definition lastIndexByte :: "string \<Rightarrow> char \<Rightarrow> int" where
  "lastIndexByte s c =
     (let i = indexByte (rev s) c in if i < 0 then -1 else int (length s) - 1 - i)"

text \<open>The slice expression \<^verbatim>\<open>s[:i]\<close> panics when \<open>i\<close> is negative or beyond the
  length of \<open>s\<close>.\<close>

definition sliceTo :: "string \<Rightarrow> int \<Rightarrow> fault + string" where
  "sliceTo s i = (if i < 0 \<or> int (length s) < i then Inl Panic else Inr (take (nat i) s))"

definition bold :: "string \<Rightarrow> string" where
  "bold s = ''**'' @ s @ ''**''"

text \<open>The minor identifier of a runtime: an old style \<^verbatim>\<open>go1.2\<close> with exactly one
  dot is taken whole, anything else is cut at its last dot.\<close>

definition runMinorOf :: "string \<Rightarrow> fault + string" where
  "runMinorOf rt =
     (if countByte rt CHR ''.'' = 1 then Inr rt
      else sliceTo rt (lastIndexByte rt CHR ''.''))"

text \<open>
  The loop \<^verbatim>\<open>for i := len(rows) - 1; i >= 0; i--\<close> of \<^verbatim>\<open>writeTable\<close>. The first
  argument is \<open>i + 1\<close>; the loop updates \<open>rows[i]\<close> in place and carries the two previous
  minor identifiers.
\<close>

fun boldLoop :: "nat \<Rightarrow> string \<Rightarrow> string \<Rightarrow> tableRow list \<Rightarrow> fault + tableRow list" where
  "boldLoop 0 prevRunMinor prevSynMinor rows = Inr rows"
| "boldLoop (Suc i) prevRunMinor prevSynMinor rows =
     (let r = rows ! i in
      case runMinorOf (Runtime r) of
        Inl p \<Rightarrow> Inl p
      | Inr runMinor \<Rightarrow>
          let (prevRunMinor', r1) =
                (if runMinor \<noteq> prevRunMinor
                 then (runMinor, r\<lparr>Runtime := bold (Runtime r)\<rparr>)
                 else (prevRunMinor, r))
          in case sliceTo (Version r1) (lastIndexByte (Version r1) CHR ''.'') of
               Inl p \<Rightarrow> Inl p
             | Inr synMinor \<Rightarrow>
                 let (prevSynMinor', r2) =
                       (if synMinor \<noteq> prevSynMinor
                        then (synMinor, r1\<lparr>Version := bold (Version r1)\<rparr>)
                        else (prevSynMinor, r1))
                 in boldLoop i prevRunMinor' prevSynMinor' (rows[i := r2]))"

text \<open>The formatting pass: lines 57 to 87 of \<^verbatim>\<open>writeTable\<close>.\<close>

definition formatRows :: "tableRow list \<Rightarrow> fault + tableRow list" where
  "formatRows rows = (let sorted = sortRows rows in boldLoop (length sorted) [] [] sorted)"

section \<open>Saving the table: the CSV writer\<close>

text \<open>
  \<^verbatim>\<open>encoding/csv\<close> of the Go standard library, with the default comma and
  \<^verbatim>\<open>UseCRLF\<close> off. A field is quoted when it is \<^verbatim>\<open>\.\<close>, when it contains a
  comma, a quote, a carriage return or a line feed, or when its first code point is
  white space (\<^verbatim>\<open>unicode.IsSpace\<close>); the empty field is never quoted.
  \<open>spaceRunes\<close> lists the UTF-8 encodings of the white-space code points.
\<close>

definition spaceRunes :: "string list" where
  "spaceRunes =
     [[CHR 0x09], [CHR 0x0A], [CHR 0x0B], [CHR 0x0C], [CHR 0x0D], [CHR 0x20],
      [CHR 0xC2, CHR 0x85], [CHR 0xC2, CHR 0xA0], [CHR 0xE1, CHR 0x9A, CHR 0x80],
      [CHR 0xE2, CHR 0x80, CHR 0x80], [CHR 0xE2, CHR 0x80, CHR 0x81],
      [CHR 0xE2, CHR 0x80, CHR 0x82], [CHR 0xE2, CHR 0x80, CHR 0x83],
      [CHR 0xE2, CHR 0x80, CHR 0x84], [CHR 0xE2, CHR 0x80, CHR 0x85],
      [CHR 0xE2, CHR 0x80, CHR 0x86], [CHR 0xE2, CHR 0x80, CHR 0x87],
      [CHR 0xE2, CHR 0x80, CHR 0x88], [CHR 0xE2, CHR 0x80, CHR 0x89],
      [CHR 0xE2, CHR 0x80, CHR 0x8A], [CHR 0xE2, CHR 0x80, CHR 0xA8],
      [CHR 0xE2, CHR 0x80, CHR 0xA9], [CHR 0xE2, CHR 0x80, CHR 0xAF],
      [CHR 0xE2, CHR 0x81, CHR 0x9F], [CHR 0xE3, CHR 0x80, CHR 0x80]]"

definition specialBytes :: string where
  "specialBytes = [CHR 0x0A, CHR 0x0D, CHR 0x22, CHR '','']"

definition fieldNeedsQuotes :: "string \<Rightarrow> bool" where
  "fieldNeedsQuotes field =
     (if field = [] then False
      else if field = [CHR 0x5C, CHR ''.''] then True
      else if list_ex (\<lambda>c. c \<in> set specialBytes) field then True
      else list_ex (\<lambda>p. take (length p) field = p) spaceRunes)"

text \<open>Inside the quotes a quote is doubled; every other byte is written as it is.\<close>

definition quoteField :: "string \<Rightarrow> string" where
  "quoteField field =
     [CHR 0x22] @ concat (map (\<lambda>c. if c = CHR 0x22 then [c, c] else [c]) field) @ [CHR 0x22]"

definition csvField :: "string \<Rightarrow> string" where
  "csvField field = (if fieldNeedsQuotes field then quoteField field else field)"

fun joinComma :: "string list \<Rightarrow> string" where
  "joinComma [] = []"
| "joinComma [f] = f"
| "joinComma (f # g # fs) = f @ '','' @ joinComma (g # fs)"

text \<open>\<^verbatim>\<open>csv.Writer.Write\<close>: one record, ended by a line feed.\<close>

definition csvWrite :: "string list \<Rightarrow> string" where
  "csvWrite record = joinComma (map csvField record) @ [CHR 0x0A]"

definition toStrings :: "tableRow \<Rightarrow> string list" where
  "toStrings r = [Version r, Runtime r, Date r]"

definition tableHeader :: "string list" where
  "tableHeader = [''Version'', ''Runtime'', ''Date'']"

text \<open>
  \<^verbatim>\<open>writeTable\<close>. The destination \<open>w\<close> is given by the error it answers to writes,
  if any; the csv writer buffers, so that error comes back from \<^verbatim>\<open>Write\<close> or from
  \<^verbatim>\<open>cw.Error()\<close> after the flush, and \<^verbatim>\<open>writeTable\<close> returns it either way. On
  success the result is the text written.
\<close>

definition writeTable :: "error option \<Rightarrow> tableRow list \<Rightarrow> fault + string" where
  "writeTable w rows =
     (case formatRows rows of
        Inl p \<Rightarrow> Inl p
      | Inr rows' \<Rightarrow>
          (case w of
             Some e \<Rightarrow> Inl (Failed e)
           | None \<Rightarrow> Inr (concat (map csvWrite (tableHeader # map toStrings rows')))))"

text \<open>The three rows of the emphasis example, with runtimes \<open>a\<close>, \<open>b\<close> and \<open>c\<close>.\<close>

definition seriesRows :: "string \<Rightarrow> string \<Rightarrow> string \<Rightarrow> tableRow list" where
  "seriesRows a b c =
     [\<lparr>Version = ''v1.2.0'', Runtime = a, Date = ''2021-01-01''\<rparr>,
      \<lparr>Version = ''v1.2.1'', Runtime = b, Date = ''2021-02-01''\<rparr>,
      \<lparr>Version = ''v1.3.0'', Runtime = c, Date = ''2021-03-01''\<rparr>]"

definition dotted :: "tableRow \<Rightarrow> bool" where
  "dotted r = (CHR ''.'' \<in> set (Version r) \<and> CHR ''.'' \<in> set (Runtime r))"

declare boldLoop.simps(2) [simp del]

section \<open>Paths\<close>

text \<open>
  \<^verbatim>\<open>path.Base\<close>, \<^verbatim>\<open>path.Dir\<close> and \<^verbatim>\<open>path.Clean\<close> of the Go standard
  library, on slash-separated paths. \<open>Base\<close> strips trailing slashes and returns the last
  element. \<open>Dir\<close> cuts the path after its last slash and cleans what is left. \<open>Clean\<close>
  drops empty and \<^verbatim>\<open>.\<close> elements, cancels an element against a following
  \<^verbatim>\<open>..\<close>, drops a \<^verbatim>\<open>..\<close> at the root, and returns \<^verbatim>\<open>.\<close> for an empty
  result; \<open>cleanStep\<close> keeps the elements seen so far, the last one first.
\<close>

definition pathBase :: "string \<Rightarrow> string" where
  "pathBase path =
     (if path = [] then ''.''
      else let p = rev (dropWhile (\<lambda>c. c = CHR ''/'') (rev path));
               i = lastIndexByte p CHR ''/'';
               p' = (if 0 \<le> i then drop (nat (i + 1)) p else p)
           in if p' = [] then ''/'' else p')"

fun splitSlash :: "string \<Rightarrow> string list" where
  "splitSlash [] = [[]]"
| "splitSlash (c # cs) =
     (if c = CHR ''/'' then [] # splitSlash cs
      else (case splitSlash cs of [] \<Rightarrow> [[c]] | w # ws \<Rightarrow> (c # w) # ws))"

fun cleanStep :: "bool \<Rightarrow> string list \<Rightarrow> string list \<Rightarrow> string list" where
  "cleanStep rooted out [] = out"
| "cleanStep rooted out (c # cs) =
     (if c = [] \<or> c = ''.'' then cleanStep rooted out cs
      else if c = ''..'' then
        (case out of
           [] \<Rightarrow> if rooted then cleanStep rooted out cs else cleanStep rooted [''..''] cs
         | t # ts \<Rightarrow>
             if t \<noteq> ''..'' then cleanStep rooted ts cs
             else if rooted then cleanStep rooted out cs
             else cleanStep rooted (''..'' # out) cs)
      else cleanStep rooted (c # out) cs)"

fun joinSlash :: "string list \<Rightarrow> string" where
  "joinSlash [] = []"
| "joinSlash [f] = f"
| "joinSlash (f # g # fs) = f @ ''/'' @ joinSlash (g # fs)"

definition pathClean :: "string \<Rightarrow> string" where
  "pathClean path =
     (if path = [] then ''.''
      else let rooted = (hd path = CHR ''/'');
               body = joinSlash (rev (cleanStep rooted [] (splitSlash path)))
           in if rooted then CHR ''/'' # body
              else if body = [] then ''.'' else body)"

definition pathDir :: "string \<Rightarrow> string" where
  "pathDir path = pathClean (take (nat (lastIndexByte path CHR ''/'' + 1)) path)"

text \<open>\<^verbatim>\<open>filepath.Ext\<close>: the suffix from the last dot of the last path element, empty
  when that element has no dot. The separator is that of the host system.\<close>

definition isPathSeparator :: "string \<Rightarrow> char \<Rightarrow> bool" where
  "isPathSeparator os c = (c = CHR ''/'' \<or> (os = ''windows'' \<and> c = CHR 0x5C))"

fun extScan :: "string \<Rightarrow> string \<Rightarrow> string \<Rightarrow> string" where
  "extScan os [] acc = []"
| "extScan os (c # cs) acc =
     (if isPathSeparator os c then []
      else if c = CHR ''.'' then c # acc
      else extScan os cs (c # acc))"

definition filepathExt :: "string \<Rightarrow> string \<Rightarrow> string" where
  "filepathExt os path = extScan os (rev path) []"

definition hasPrefix :: "string \<Rightarrow> string \<Rightarrow> bool" where
  "hasPrefix s p = (take (length p) s = p)"

section \<open>Time\<close>

text \<open>
  The creation time of a release, as far as the layout used by the program prints it.
  \<^verbatim>\<open>time.Time.Format\<close> reads its layout as a sequence of reference chunks: of
  those, \<^verbatim>\<open>2006\<close> prints the year in four digits, \<^verbatim>\<open>01\<close> the month and
  \<^verbatim>\<open>02\<close> the day of the month in two digits. \<open>formatTime\<close> covers these three
  chunks and copies every other byte, which is what Go does on layouts built from these
  chunks and the separator \<^verbatim>\<open>-\<close>.
\<close>

record timestamp =
  year :: nat
  month :: nat
  day :: nat

fun decimal :: "nat \<Rightarrow> string" where
  "decimal n =
     (if n < 10 then [''0123456789'' ! n]
      else decimal (n div 10) @ [''0123456789'' ! (n mod 10)])"

definition appendInt :: "nat \<Rightarrow> nat \<Rightarrow> string" where
  "appendInt x width = (let d = decimal x in replicate (width - length d) CHR ''0'' @ d)"

fun formatTime :: "timestamp \<Rightarrow> string \<Rightarrow> string" where
  "formatTime t [] = []"
| "formatTime t (c # cs) =
     (if take 4 (c # cs) = ''2006'' then appendInt (year t) 4 @ formatTime t (drop 3 cs)
      else if take 2 (c # cs) = ''01'' then appendInt (month t) 2 @ formatTime t (drop 1 cs)
      else if take 2 (c # cs) = ''02'' then appendInt (day t) 2 @ formatTime t (drop 1 cs)
      else c # formatTime t cs)"


section \<open>Releases\<close>

text \<open>
  A release as the GitHub client hands it over. Tag and creation time are pointers that
  may be nil: \<^verbatim>\<open>GetTagName\<close> and \<^verbatim>\<open>GetCreatedAt\<close> return the zero value then.
  The name and the URL of an asset are dereferenced without a check; they are taken to
  be present.
\<close>

record asset =
  AssetName :: string
  BrowserDownloadURL :: string

record release =
  TagName :: "string option"
  CreatedAt :: "timestamp option"
  Assets :: "asset list"

definition GetTagName :: "release \<Rightarrow> string" where
  "GetTagName rel = (case TagName rel of None \<Rightarrow> [] | Some tag \<Rightarrow> tag)"

definition GetCreatedAt :: "release \<Rightarrow> timestamp" where
  "GetCreatedAt rel =
     (case CreatedAt rel of None \<Rightarrow> \<lparr>year = 1, month = 1, day = 1\<rparr> | Some t \<Rightarrow> t)"

text \<open>The row \<^verbatim>\<open>getReleaseVersion\<close> builds from the release alone (lines 119 to 122).\<close>

definition seedRow :: "release \<Rightarrow> tableRow" where
  "seedRow rel =
     \<lparr>Version = GetTagName rel, Runtime = [],
      Date = formatTime (GetCreatedAt rel) ''2006-01-01''\<rparr>"

section \<open>The outside world\<close>

text \<open>
  Everything the program reaches through a library or the operating system is a
  parameter, collected in \<open>env\<close>: the host system, the download of a URL, the decoders
  of the two archive formats, the creation of a temporary file (given the names that
  exist), writing and \<^verbatim>\<open>chmod\<close> on a file, and the output of the two commands run on
  a file with given content. A \<open>reader\<close> yields its bytes and then ends, cleanly or with
  an error. A zip archive decodes to its entries; a tar stream yields entries until
  \<^verbatim>\<open>Next\<close> returns an error, which is \<^verbatim>\<open>io.EOF\<close> at a regular end.

  The state is the \<open>world\<close>: the temporary files that exist, with their content, and
  the log.
\<close>

datatype reader = Reader string "error option"

definition readAll :: "reader \<Rightarrow> error + string" where
  "readAll r = (case r of Reader bs None \<Rightarrow> Inr bs | Reader bs (Some e) \<Rightarrow> Inl e)"

record zipFile =
  FileName :: string
  FileOpen :: "error + reader"

datatype tarStream = TarEnd error | TarEntry string reader tarStream

record env =
  goos :: string
  goarch :: string
  httpGet :: "string \<Rightarrow> error + reader"
  zipNewReader :: "string \<Rightarrow> error + zipFile list"
  gzipNewReader :: "string \<Rightarrow> error + tarStream"
  createTemp :: "string list \<Rightarrow> error + string"
  fdWrite :: "string \<Rightarrow> string \<Rightarrow> error option"
  chmod :: "string \<Rightarrow> error option"
  runVersion :: "string \<Rightarrow> error + string"
  goVersion :: "string \<Rightarrow> error + string"

datatype logEntry = Checking string | Downloading string | Skipped string error

record world =
  files :: "(string \<times> string) list"
  logs :: "logEntry list"

definition addLog :: "logEntry \<Rightarrow> world \<Rightarrow> world" where
  "addLog l w = w\<lparr>logs := logs w @ [l]\<rparr>"

definition putFile :: "string \<Rightarrow> string \<Rightarrow> world \<Rightarrow> world" where
  "putFile name bs w = w\<lparr>files := (name, bs) # filter (\<lambda>f. fst f \<noteq> name) (files w)\<rparr>"

definition osRemove :: "string \<Rightarrow> world \<Rightarrow> world" where
  "osRemove name w = w\<lparr>files := filter (\<lambda>f. fst f \<noteq> name) (files w)\<rparr>"

definition fileExists :: "world \<Rightarrow> string \<Rightarrow> bool" where
  "fileExists w name = (name \<in> fst ` set (files w))"

text \<open>\<^verbatim>\<open>io.Copy(fd, r)\<close> fails when reading fails or when writing fails.\<close>

definition ioCopy :: "env \<Rightarrow> string \<Rightarrow> reader \<Rightarrow> world \<Rightarrow> world \<times> error option" where
  "ioCopy e name r w =
     (case r of
        Reader bs (Some err) \<Rightarrow> (putFile name bs w, Some err)
      | Reader bs None \<Rightarrow>
          (case fdWrite e name bs of
             Some err \<Rightarrow> (w, Some err)
           | None \<Rightarrow> (putFile name bs w, None)))"

definition execFile :: "(string \<Rightarrow> error + string) \<Rightarrow> world \<Rightarrow> string \<Rightarrow> error + string" where
  "execFile tool w name =
     (case map_of (files w) name of
        None \<Rightarrow> Inl (LibError ''no such file or directory'')
      | Some bs \<Rightarrow> tool bs)"

definition getVersionFromCommand :: "env \<Rightarrow> world \<Rightarrow> string \<Rightarrow> error + tableRow" where
  "getVersionFromCommand e w name =
     (case execFile (runVersion e) w name of
        Inl err \<Rightarrow> Inl err
      | Inr out \<Rightarrow> fromVersion out)"

definition getVersionFromGo :: "env \<Rightarrow> world \<Rightarrow> string \<Rightarrow> error + tableRow" where
  "getVersionFromGo e w name =
     (case execFile (goVersion e) w name of
        Inl err \<Rightarrow> Inl err
      | Inr out \<Rightarrow>
          (let idx = indexByte out CHR 0x0A in
           if idx < 0 then Inl NoVersion
           else let out' = take (nat idx) out; idx' = lastIndexByte out' CHR '' '' in
                if idx' < 0 then Inl NoVersion
                else Inr \<lparr>Version = [], Runtime = drop (nat (idx' + 1)) out', Date = []\<rparr>))"

text \<open>
  \<^verbatim>\<open>getVersionFromReader\<close>. The removal of the temporary file is deferred only
  after the copy: the two returns before that leave the function without it.
\<close>

definition getVersionFromReader :: "env \<Rightarrow> world \<Rightarrow> reader \<Rightarrow> world \<times> (error + tableRow)" where
  "getVersionFromReader e w r =
     (case createTemp e (map fst (files w)) of
        Inl err \<Rightarrow> (w, Inl err)
      | Inr name \<Rightarrow>
          (case ioCopy e name r (putFile name [] w) of
             (w1, Some err) \<Rightarrow> (w1, Inl err)
           | (w1, None) \<Rightarrow>
               (case chmod e name of
                  Some err \<Rightarrow> (osRemove name w1, Inl err)
                | None \<Rightarrow>
                    (case getVersionFromCommand e w1 name of
                       Inr row \<Rightarrow> (osRemove name w1, Inr row)
                     | Inl _ \<Rightarrow> (osRemove name w1, getVersionFromGo e w1 name)))))"

fun zipLoop :: "env \<Rightarrow> world \<Rightarrow> zipFile list \<Rightarrow> world \<times> (error + tableRow)" where
  "zipLoop e w [] = (w, Inl NoBinaryFound)"
| "zipLoop e w (f # fs) =
     (if CHR ''/'' \<in> set (pathDir (FileName f)) then zipLoop e w fs
      else if pathBase (FileName f) \<noteq> ''syncthing'' then zipLoop e w fs
      else (case FileOpen f of
              Inl err \<Rightarrow> (w, Inl err)
            | Inr rd \<Rightarrow> getVersionFromReader e w rd))"

definition getReleaseVersionZip :: "env \<Rightarrow> world \<Rightarrow> string \<Rightarrow> world \<times> (error + tableRow)" where
  "getReleaseVersionZip e w bs =
     (case zipNewReader e bs of
        Inl err \<Rightarrow> (w, Inl err)
      | Inr zfiles \<Rightarrow> zipLoop e w zfiles)"

text \<open>The loop of \<^verbatim>\<open>getReleaseVersionTarGz\<close> leaves on any error of
  \<^verbatim>\<open>tr.Next()\<close> and then reports that no binary was found.\<close>

fun tarLoop :: "env \<Rightarrow> world \<Rightarrow> tarStream \<Rightarrow> world \<times> (error + tableRow)" where
  "tarLoop e w (TarEnd err) = (w, Inl NoBinaryFound)"
| "tarLoop e w (TarEntry name rd rest) =
     (if pathBase name \<noteq> ''syncthing'' then tarLoop e w rest
      else getVersionFromReader e w rd)"

definition getReleaseVersionTarGz :: "env \<Rightarrow> world \<Rightarrow> string \<Rightarrow> world \<times> (error + tableRow)" where
  "getReleaseVersionTarGz e w bs =
     (case gzipNewReader e bs of
        Inl err \<Rightarrow> (w, Inl err)
      | Inr tr \<Rightarrow> tarLoop e w tr)"

definition mergeResult :: "tableRow \<Rightarrow> world \<times> (error + tableRow) \<Rightarrow> world \<times> (error + tableRow)" where
  "mergeResult row res =
     (case res of (w, Inl err) \<Rightarrow> (w, Inl err) | (w, Inr r) \<Rightarrow> (w, Inr (merge row r)))"

fun assetLoop :: "env \<Rightarrow> world \<Rightarrow> tableRow \<Rightarrow> string \<Rightarrow> asset list \<Rightarrow> world \<times> (error + tableRow)" where
  "assetLoop e w row prefix [] = (w, Inl NoAssetFound)"
| "assetLoop e w row prefix (a # as) =
     (if hasPrefix (AssetName a) prefix then
        (let w1 = addLog (Downloading (AssetName a)) w in
         case httpGet e (BrowserDownloadURL a) of
           Inl err \<Rightarrow> (w1, Inl err)
         | Inr body \<Rightarrow>
             (case readAll body of
                Inl err \<Rightarrow> (w1, Inl err)
              | Inr bs \<Rightarrow>
                  if filepathExt (goos e) (AssetName a) = ''.zip''
                  then mergeResult row (getReleaseVersionZip e w1 bs)
                  else mergeResult row (getReleaseVersionTarGz e w1 bs)))
      else assetLoop e w row prefix as)"

definition getReleaseVersion :: "env \<Rightarrow> world \<Rightarrow> release \<Rightarrow> world \<times> (error + tableRow)" where
  "getReleaseVersion e w rel =
     (let os = (if goos e = ''darwin'' then ''macos'' else goos e);
          row = seedRow rel;
          prefix = ''syncthing-'' @ os @ ''-'' @ goarch e
      in assetLoop e w row prefix (Assets rel))"

text \<open>
  The loop of \<^verbatim>\<open>main\<close> over the releases (lines 58 to 68); \<open>seen\<close> holds the
  versions of the table as loaded and is not extended by the loop. Dereferencing a nil
  tag panics.
\<close>

fun syncLoop :: "env \<Rightarrow> string list \<Rightarrow> world \<Rightarrow> tableRow list \<Rightarrow> release list \<Rightarrow>
    fault + world \<times> tableRow list" where
  "syncLoop e seen w table [] = Inr (w, table)"
| "syncLoop e seen w table (rel # rels) =
     (case TagName rel of
        None \<Rightarrow> Inl Panic
      | Some tag \<Rightarrow>
          if tag \<in> set seen then syncLoop e seen w table rels
          else (case getReleaseVersion e (addLog (Checking tag) w) rel of
                  (w1, Inl err) \<Rightarrow> syncLoop e seen (addLog (Skipped tag err) w1) table rels
                | (w1, Inr row) \<Rightarrow> syncLoop e seen w1 (table @ [row]) rels))"

definition resolveMissing :: "env \<Rightarrow> world \<Rightarrow> tableRow list \<Rightarrow> release list \<Rightarrow>
    fault + world \<times> tableRow list" where
  "resolveMissing e w table releases = syncLoop e (map Version table) w table releases"

text \<open>
  A sample outside world for the concrete runs below: a Linux host on which the
  downloaded binary does not execute, and the build-info tool prints the content of the
  file as the runtime. The body of a download is the URL itself.
\<close>

definition exampleEnv :: env where
  "exampleEnv =
     \<lparr>goos = ''linux'', goarch = ''amd64'',
      httpGet = (\<lambda>url. Inr (Reader url None)),
      zipNewReader = (\<lambda>bs.
        if bs = ''nested-first''
        then Inr [\<lparr>FileName = ''bin/syncthing'', FileOpen = Inr (Reader ''nested'' None)\<rparr>,
                  \<lparr>FileName = ''syncthing'', FileOpen = Inr (Reader ''top-level'' None)\<rparr>]
        else Inl (LibError ''zip: not a valid zip file'')),
      gzipNewReader = (\<lambda>bs.
        if bs = ''corrupt-tar'' then Inr (TarEnd (LibError ''archive/tar: invalid tar header''))
        else if bs = ''no-binary-tar''
        then Inr (TarEntry ''README.txt'' (Reader ''hello'' None) (TarEnd EOF))
        else if bs = ''truncated-entry-tar''
        then Inr (TarEntry ''syncthing'' (Reader ''go1.'' (Some (LibError ''unexpected EOF'')))
                    (TarEnd (LibError ''unexpected EOF'')))
        else Inl (LibError ''gzip: invalid header'')),
      createTemp = (\<lambda>existing. Inr (''/tmp/syncthing'' @ replicate (length existing) CHR ''0'')),
      fdWrite = (\<lambda>name bs. None),
      chmod = (\<lambda>name. None),
      runVersion = (\<lambda>bs. Inl (LibError ''exec format error'')),
      goVersion = (\<lambda>bs. Inr (''/tmp/syncthing: '' @ bs @ [CHR 0x0A]))\<rparr>"

definition emptyWorld :: world where
  "emptyWorld = \<lparr>files = [], logs = []\<rparr>"


text \<open>The test an entry of a zip archive has to pass in \<^verbatim>\<open>getReleaseVersionZip\<close>.\<close>

definition eligible :: "zipFile \<Rightarrow> bool" where
  "eligible f = (CHR ''/'' \<notin> set (pathDir (FileName f)) \<and> pathBase (FileName f) = ''syncthing'')"

definition corruptRelease :: release where
  "corruptRelease =
     \<lparr>TagName = Some ''v1.0.0'', CreatedAt = Some \<lparr>year = 2023, month = 1, day = 12\<rparr>,
      Assets = [\<lparr>AssetName = ''syncthing-linux-amd64-v1.0.0.tar.gz'',
                 BrowserDownloadURL = ''corrupt-tar''\<rparr>]\<rparr>"

declare decimal.simps [simp del]

section \<open>Loading the table: the CSV reader\<close>

text \<open>
  \<^verbatim>\<open>csv.Reader\<close> of the Go standard library with its default settings. The reader
  takes its input line by line, cutting after every line feed; at the end of each line
  it replaces a carriage return followed by the line feed by the line feed alone, and it
  drops a carriage return that ends the input. Lines are cut whether or not a quoted
  field is open, so this is one pass over the whole input: \<open>normalizeCRLF\<close>.
\<close>

fun normalizeCRLF :: "string \<Rightarrow> string" where
  "normalizeCRLF [] = []"
| "normalizeCRLF [c] = (if c = CHR 0x0D then [] else [c])"
| "normalizeCRLF (c # d # s) =
     (if c = CHR 0x0D \<and> d = CHR 0x0A then CHR 0x0A # normalizeCRLF s
      else c # normalizeCRLF (d # s))"

text \<open>
  One record is scanned field by field. A field that starts with a quote runs to the
  closing quote, across line feeds; inside it two quotes stand for one, and the closing
  quote must be followed by a comma, a line feed or the end of the input. Any other
  field runs to the next comma or line feed and must not contain a quote. \<open>scan\<close>
  returns the fields of the record and the input left after it.
\<close>

datatype fieldState = FieldStart | InBare | InQuoted

fun scan :: "fieldState \<Rightarrow> string list \<Rightarrow> string \<Rightarrow> string \<Rightarrow> error + string list \<times> string" where
  "scan st acc buf [] =
     (if st = InQuoted then Inl (LibError ''extraneous or missing quote in quoted-field'')
      else Inr (acc @ [buf], []))"
| "scan st acc buf (c # s) =
     (if st = InQuoted then
        (if c = CHR 0x22 then
           (case s of
              [] \<Rightarrow> Inr (acc @ [buf], [])
            | d # s' \<Rightarrow>
                if d = CHR 0x22 then scan InQuoted acc (buf @ [d]) s'
                else if d = CHR '','' then scan FieldStart (acc @ [buf]) [] s'
                else if d = CHR 0x0A then Inr (acc @ [buf], s')
                else Inl (LibError ''extraneous or missing quote in quoted-field''))
         else scan InQuoted acc (buf @ [c]) s)
      else if st = FieldStart \<and> c = CHR 0x22 then scan InQuoted acc [] s
      else if c = CHR '','' then scan FieldStart (acc @ [buf]) [] s
      else if c = CHR 0x0A then Inr (acc @ [buf], s)
      else if c = CHR 0x22 then Inl (LibError ''bare quote in non-quoted-field'')
      else scan InBare acc (buf @ [c]) s)"

text \<open>
  \<^verbatim>\<open>csv.Reader.Read\<close>: empty lines before a record are skipped, the end of the
  input is \<^verbatim>\<open>io.EOF\<close>, and every record must have as many fields as the first
  one (\<open>fpr\<close>, zero before the first record).
\<close>

definition csvRead :: "nat \<Rightarrow> string \<Rightarrow> error + string list \<times> nat \<times> string" where
  "csvRead fpr s =
     (let s' = dropWhile (\<lambda>c. c = CHR 0x0A) s in
      if s' = [] then Inl EOF
      else (case scan FieldStart [] [] s' of
              Inl e \<Rightarrow> Inl e
            | Inr (fs, rest) \<Rightarrow>
                if 0 < fpr \<and> length fs \<noteq> fpr then Inl (LibError ''wrong number of fields'')
                else Inr (fs, (if fpr = 0 then length fs else fpr), rest)))"

text \<open>The loop of \<^verbatim>\<open>readTable\<close>.\<close>

function readLoop :: "nat \<Rightarrow> tableRow list \<Rightarrow> string \<Rightarrow> error + tableRow list" where
  "readLoop fpr rows s =
     (case csvRead fpr s of
        Inl e \<Rightarrow> if e = EOF then Inr rows else Inl e
      | Inr (ss, fpr', s') \<Rightarrow>
          if length ss = 0 then readLoop fpr' rows s'
          else if ss ! 0 = tableHeader ! 0 then readLoop fpr' rows s'
          else (case fromStrings ss of
                  Inl e \<Rightarrow> Inl e
                | Inr row \<Rightarrow> readLoop fpr' (rows @ [row]) s'))"
  by pat_completeness auto
termination
proof -
  have scan_le: "scan st acc buf s = Inr (fs, r) \<Longrightarrow> length r \<le> length s" for st acc buf s fs r
  proof (induction st acc buf s rule: scan.induct)
    case (1 st acc buf)
    then show ?case by (simp split: if_splits)
  next
    case (2 st acc buf c s)
    show ?case
    proof (cases s)
      case Nil
      with 2 show ?thesis by (simp split: if_splits)
    next
      case (Cons d s')
      with 2 show ?thesis
        by (simp split: if_splits) force+
    qed
  qed
  have scan_less: "scan st acc buf (c # s) = Inr (fs, r) \<Longrightarrow> length r \<le> length s"
    for st acc buf c s fs r
    by (subst (asm) scan.simps(2))
      (auto simp del: scan.simps split: if_splits list.splits dest!: scan_le)
  have read_less: "length s' < length s" if a: "csvRead fpr s = Inr (ss, fpr', s')"
    for fpr s ss fpr' s'
  proof -
    let ?t = "dropWhile (\<lambda>c. c = CHR 0x0A) s"
    from a have ne: "?t \<noteq> []" and sc: "scan FieldStart [] [] ?t = Inr (ss, s')"
      by (auto simp: csvRead_def Let_def split: if_splits sum.splits)
    from ne obtain c u where t: "?t = c # u" by (cases ?t) auto
    have "length s' \<le> length u"
      using sc scan_less [of FieldStart "[]" "[]" c u ss s'] by (simp add: t)
    moreover have "length ?t \<le> length s"
      by (rule length_dropWhile_le)
    ultimately show ?thesis by (simp add: t)
  qed
  show ?thesis
    by (relation "measure (\<lambda>(fpr, rows, s). length s)") (use read_less in auto)
qed

definition readTable :: "string \<Rightarrow> error + tableRow list" where
  "readTable s = readLoop 0 [] (normalizeCRLF s)"

text \<open>Saving a table to a healthy destination and loading what was written.\<close>

definition saveThenLoad :: "tableRow list \<Rightarrow> fault + tableRow list" where
  "saveThenLoad rows =
     (case writeTable None rows of
        Inl f \<Rightarrow> Inl f
      | Inr out \<Rightarrow> (case readTable out of Inl e \<Rightarrow> Inl (Failed e) | Inr rows' \<Rightarrow> Inr rows'))"

declare scan.simps [simp del]

declare readLoop.simps [simp del]

text \<open>Notions for the round trip: the doubling of quotes, text without a carriage return
  before a line feed, fields without emphasis markers at either end, and a row next to
  its emphasised form.\<close>

definition escapeQuotes :: "string \<Rightarrow> string" where
  "escapeQuotes f = concat (map (\<lambda>c. if c = CHR 0x22 then [c, c] else [c]) f)"

definition unbold :: "tableRow \<Rightarrow> tableRow" where
  "unbold r = \<lparr>Version = trim (Version r) ''*'', Runtime = trim (Runtime r) ''*'',
              Date = trim (Date r) ''*''\<rparr>"

fun hasCRLF :: "string \<Rightarrow> bool" where
  "hasCRLF (c # d # s) = ((c = CHR 0x0D \<and> d = CHR 0x0A) \<or> hasCRLF (d # s))"
| "hasCRLF s = False"

definition sealed :: "string \<Rightarrow> bool" where
  "sealed s = (\<not> hasCRLF s \<and> (s = [] \<or> last s \<noteq> CHR 0x0D))"

definition plainField :: "string \<Rightarrow> bool" where
  "plainField f = ((f = [] \<or> (hd f \<noteq> CHR ''*'' \<and> last f \<noteq> CHR ''*'')) \<and> \<not> hasCRLF f)"

definition plainRow :: "tableRow \<Rightarrow> bool" where
  "plainRow r = (plainField (Version r) \<and> plainField (Runtime r) \<and> plainField (Date r))"

definition boldRel :: "tableRow \<Rightarrow> tableRow \<Rightarrow> bool" where
  "boldRel r r' =
     ((Version r' = Version r \<or> Version r' = bold (Version r)) \<and>
      (Runtime r' = Runtime r \<or> Runtime r' = bold (Runtime r)) \<and>
      Date r' = Date r)"

text \<open>A table whose only row has a version with a carriage return and a line feed in it.\<close>

definition crlfTable :: "tableRow list" where
  "crlfTable =
     [\<lparr>Version = ''v1.'' @ [CHR 0x0D, CHR 0x0A] @ ''0'', Runtime = ''go1.2'',
       Date = ''2021-01-01''\<rparr>]"

section \<open>The driver\<close>

text \<open>
  \<^verbatim>\<open>main\<close>. The listing of the releases is given by its result, the versions file
  by its state when the program starts, and the destination by the errors it answers to
  \<^verbatim>\<open>os.Create\<close>, to the writes and to \<^verbatim>\<open>Close\<close>. A fatal log call ends the
  program. \<^verbatim>\<open>os.Create\<close> empties the file before anything is written; the result
  carries the world the run leaves (when it did not panic in the loop), the state of
  the versions file and how the program ended.
\<close>

datatype fileState = NotExist | Unreadable error | Content string

record destination =
  createError :: "error option"
  writeError :: "error option"
  closeError :: "error option"

datatype outcome = FatalExit error | Crashed | Saved

text \<open>Lines 38 to 49: a missing file is an empty table.\<close>

definition loadTable :: "fileState \<Rightarrow> error + tableRow list" where
  "loadTable file =
     (case file of
        NotExist \<Rightarrow> Inr []
      | Unreadable err \<Rightarrow> Inl err
      | Content s \<Rightarrow> readTable s)"

text \<open>Lines 70 to 80, applied to what the loop over the releases left.\<close>

definition saveResult :: "fileState \<Rightarrow> destination \<Rightarrow> fault + world \<times> tableRow list \<Rightarrow>
    world option \<times> fileState \<times> outcome" where
  "saveResult file dest res =
     (case res of
        Inl f \<Rightarrow> (None, file, Crashed)
      | Inr (w, table) \<Rightarrow>
          (case createError dest of
             Some err \<Rightarrow> (Some w, file, FatalExit err)
           | None \<Rightarrow>
               (case writeTable (writeError dest) table of
                  Inl Panic \<Rightarrow> (Some w, Content [], Crashed)
                | Inl (Failed err) \<Rightarrow> (Some w, Content [], FatalExit err)
                | Inr text \<Rightarrow>
                    (case closeError dest of
                       Some err \<Rightarrow> (Some w, Content text, FatalExit err)
                     | None \<Rightarrow> (Some w, Content text, Saved)))))"

definition main :: "env \<Rightarrow> world \<Rightarrow> error + release list \<Rightarrow> fileState \<Rightarrow> destination \<Rightarrow>
    world option \<times> fileState \<times> outcome" where
  "main e w listing file dest =
     (case listing of
        Inl err \<Rightarrow> (Some w, file, FatalExit err)
      | Inr releases \<Rightarrow>
          (case loadTable file of
             Inl err \<Rightarrow> (Some w, file, FatalExit err)
           | Inr table \<Rightarrow>
               saveResult file dest (syncLoop e (map Version table) w table releases)))"

text \<open>A release whose zip archive resolves in the sample world.\<close>

definition zipRelease :: release where
  "zipRelease =
     \<lparr>TagName = Some ''v1.1.0'', CreatedAt = Some \<lparr>year = 2023, month = 2, day = 3\<rparr>,
      Assets = [\<lparr>AssetName = ''syncthing-linux-amd64-v1.1.0.zip'',
                 BrowserDownloadURL = ''nested-first''\<rparr>]\<rparr>"

definition healthy :: destination where
  "healthy = \<lparr>createError = None, writeError = None, closeError = None\<rparr>"

section \<open>Properties of merge\<close>

text \<open>
  C1 (as stated): each field of \<open>merge a b\<close> is \<open>a\<close>'s field when that is non-empty and
  \<open>b\<close>'s field otherwise. This fails: with both Version fields populated the result
  carries the second record's value.
\<close>

theorem merge_left_precedence_counterexample:
  "Version (merge \<lparr>Version = ''v1.0.0'', Runtime = [], Date = []\<rparr>
                  \<lparr>Version = ''v2.0.0'', Runtime = [], Date = []\<rparr>)
     \<noteq> (if ''v1.0.0'' \<noteq> [] then ''v1.0.0'' else ''v2.0.0'')"
  by (simp add: merge_def)

text \<open>
  C1 (amended): each field of \<open>merge a b\<close> equals \<open>b\<close>'s field when that is non-empty, and
  \<open>a\<close>'s field otherwise; the second record takes precedence, and a populated field
  is never cleared.
\<close>

theorem merge_fieldwise:
  "Version (merge a b) = (if Version b \<noteq> [] then Version b else Version a) \<and>
   Runtime (merge a b) = (if Runtime b \<noteq> [] then Runtime b else Runtime a) \<and>
   Date (merge a b) = (if Date b \<noteq> [] then Date b else Date a)"
  by (simp add: merge_def)

section \<open>Properties of the banner parser\<close>

text \<open>
  C8: on the banner
  \<^verbatim>\<open>syncthing v1.23.1-rc.1 "Fermium Flea" (go1.19.5 darwin-arm64) teamcity@build.syncthing.net 2023-01-12 03:30:17 UTC [stnoupgrade]\<close>
  the parser succeeds with version v1.23.1, runtime go1.19.5 and date 2023-01-12.
\<close>

theorem fromVersion_banner:
  "fromVersion banner =
     Inr \<lparr>Version = ''v1.23.1'', Runtime = ''go1.19.5'', Date = ''2023-01-12''\<rparr>"
  by code_simp

section \<open>Properties of the formatting pass\<close>

lemma indexByte_neg: "indexByte s c < 0 \<longleftrightarrow> c \<notin> set s"
  by (induction s) (auto simp: Let_def)

lemma indexByte_bounds: "c \<in> set s \<Longrightarrow> 0 \<le> indexByte s c \<and> indexByte s c < int (length s)"
  by (induction s) (auto simp: Let_def)

lemma lastIndexByte_neg: "lastIndexByte s c < 0 \<longleftrightarrow> c \<notin> set s"
  using indexByte_neg [of "rev s" c] indexByte_bounds [of c "rev s"]
  by (auto simp: lastIndexByte_def Let_def)

lemma lastIndexByte_le: "lastIndexByte s c \<le> int (length s)"
  using indexByte_neg [of "rev s" c] indexByte_bounds [of c "rev s"]
  by (auto simp: lastIndexByte_def Let_def)

lemma sliceTo_Panic: "sliceTo s (lastIndexByte s c) = Inl Panic \<longleftrightarrow> c \<notin> set s"
  using lastIndexByte_neg [of s c] lastIndexByte_le [of s c]
  by (auto simp: sliceTo_def)

lemma sliceTo_cases: "sliceTo s i = Inl Panic \<or> (\<exists>m. sliceTo s i = Inr m)"
  by (simp add: sliceTo_def)

lemma countByte_one: "countByte s c = 1 \<Longrightarrow> c \<in> set s"
  by (auto simp: countByte_def filter_empty_conv dest!: arg_cong [where f="\<lambda>n. n = 0"])

lemma runMinorOf_Panic: "runMinorOf rt = Inl Panic \<longleftrightarrow> CHR ''.'' \<notin> set rt"
  using countByte_one [of rt "CHR ''.''"] by (auto simp: runMinorOf_def sliceTo_Panic)

lemma runMinorOf_cases: "runMinorOf rt = Inl Panic \<or> (\<exists>m. runMinorOf rt = Inr m)"
  using sliceTo_cases by (auto simp: runMinorOf_def)

lemma runMinorOf_Inr: "CHR ''.'' \<in> set rt \<Longrightarrow> \<exists>m. runMinorOf rt = Inr m"
  using runMinorOf_Panic [of rt] runMinorOf_cases [of rt] by auto

text \<open>One round of the loop on a row whose two minor identifiers exist.\<close>

lemma boldLoop_step:
  assumes "runMinorOf (Runtime (rows ! i)) = Inr rm"
    and "sliceTo (Version (rows ! i)) (lastIndexByte (Version (rows ! i)) CHR ''.'') = Inr sm"
  shows "boldLoop (Suc i) p q rows =
         boldLoop i rm sm
           (rows[i := \<lparr>Version = (if sm \<noteq> q then bold (Version (rows ! i)) else Version (rows ! i)),
                        Runtime = (if rm \<noteq> p then bold (Runtime (rows ! i)) else Runtime (rows ! i)),
                        Date = Date (rows ! i)\<rparr>])"
  using assms by (cases "rows ! i") (simp add: boldLoop.simps(2) Let_def del: list_update_id)

text \<open>The loop panics exactly when one of the rows it visits lacks a dot.\<close>

lemma boldLoop_Panic:
  "n \<le> length rows \<Longrightarrow> boldLoop n p q rows = Inl Panic \<longleftrightarrow> (\<exists>i<n. \<not> dotted (rows ! i))"
proof (induction n arbitrary: p q rows)
  case 0 show ?case by simp
next
  case (Suc n)
  let ?r = "rows ! n"
  show ?case
  proof (cases "dotted ?r")
    case False
    then have "boldLoop (Suc n) p q rows = Inl Panic"
      using runMinorOf_Panic [of "Runtime ?r"] runMinorOf_cases [of "Runtime ?r"]
        sliceTo_Panic [of "Version ?r" "CHR ''.''"]
      by (auto simp: boldLoop.simps(2) dotted_def Let_def split: sum.splits)
    with False show ?thesis by auto
  next
    case True
    then obtain rm sm where rm: "runMinorOf (Runtime ?r) = Inr rm"
      and sm: "sliceTo (Version ?r) (lastIndexByte (Version ?r) CHR ''.'') = Inr sm"
      using runMinorOf_Panic [of "Runtime ?r"] runMinorOf_cases [of "Runtime ?r"]
        sliceTo_Panic [of "Version ?r" "CHR ''.''"] sliceTo_cases [of "Version ?r"]
      by (auto simp: dotted_def) (metis sum.distinct(1))
    have n: "n \<le> length rows" using Suc.prems by simp
    have upd: "(\<exists>i<n. \<not> dotted (rows[n := r2] ! i)) \<longleftrightarrow> (\<exists>i<n. \<not> dotted (rows ! i))" for r2
      by auto
    have "(\<exists>i<Suc n. \<not> dotted (rows ! i)) \<longleftrightarrow> (\<exists>i<n. \<not> dotted (rows ! i))"
      using True less_Suc_eq by auto
    moreover have "boldLoop n p' q' (rows[n := r2]) = Inl Panic \<longleftrightarrow> (\<exists>i<n. \<not> dotted (rows ! i))"
      for p' q' r2
      using Suc.IH [of "rows[n := r2]" p' q'] n upd [of r2] by simp
    ultimately show ?thesis
      by (simp add: boldLoop_step [OF rm sm])
  qed
qed

lemma set_insertRow: "set (insertRow r xs) = insert r (set xs)"
  by (induction xs) auto

lemma set_sortRows: "set (sortRows rows) = set rows"
  by (induction rows) (simp_all add: sortRows_def set_insertRow)

lemma formatRows_Panic: "formatRows rows = Inl Panic \<longleftrightarrow> (\<exists>r\<in>set rows. \<not> dotted r)"
proof -
  have "(\<exists>i<length xs. \<not> dotted (xs ! i)) \<longleftrightarrow> (\<exists>r\<in>set xs. \<not> dotted r)" for xs
    by (metis in_set_conv_nth)
  then have "formatRows rows = Inl Panic \<longleftrightarrow> (\<exists>r\<in>set (sortRows rows). \<not> dotted r)"
    by (simp add: formatRows_def Let_def boldLoop_Panic)
  then show ?thesis by (simp add: set_sortRows)
qed

text \<open>
  C10: the formatting pass of save panics (instead of returning an error) exactly when
  some row has a Version without a dot or a Runtime without a dot; it is total only on
  tables whose rows all carry a dot in both fields.
\<close>

theorem writeTable_panics_iff:
  "writeTable w rows = Inl Panic \<longleftrightarrow>
     (\<exists>r\<in>set rows. CHR ''.'' \<notin> set (Version r) \<or> CHR ''.'' \<notin> set (Runtime r))"
proof -
  have "writeTable w rows = Inl Panic \<longleftrightarrow> formatRows rows = Inl Panic"
    by (simp add: writeTable_def split: sum.splits option.splits)
  then show ?thesis
    by (simp add: formatRows_Panic dotted_def)
qed

theorem writeTable_panics_witness:
  "writeTable None [\<lparr>Version = ''v1.2.0'', Runtime = [], Date = ''2021-01-01''\<rparr>] = Inl Panic"
  using writeTable_panics_iff
          [of None "[\<lparr>Version = ''v1.2.0'', Runtime = [], Date = ''2021-01-01''\<rparr>]"]
  by simp

lemma mset_three:
  "mset rows = {#x, y, z#} \<Longrightarrow>
     rows \<in> {[x, y, z], [x, z, y], [y, x, z], [y, z, x], [z, x, y], [z, y, x]}"
proof -
  assume a: "mset rows = {#x, y, z#}"
  then have "length rows = 3"
    by (metis size_mset size_add_mset size_empty numeral_3_eq_3)
  then obtain p q r where "rows = [p, q, r]"
    by (auto simp: length_Suc_conv numeral_3_eq_3)
  with a show ?thesis
    by (auto simp: add_eq_conv_ex)
qed

lemma sortRows_series:
  assumes "rows \<in> {[x, y, z], [x, z, y], [y, x, z], [y, z, x], [z, x, y], [z, y, x]}"
    and "[x, y, z] = seriesRows a b c"
  shows "sortRows rows = [z, y, x]"
  using assms by (auto simp: sortRows_def rowLess_def seriesRows_def)

lemma lastDot_series:
  "lastIndexByte ''v1.2.0'' CHR ''.'' = 4" "lastIndexByte ''v1.2.1'' CHR ''.'' = 4"
  "lastIndexByte ''v1.3.0'' CHR ''.'' = 4"
  by (simp_all add: lastIndexByte_def)

lemma sliceTo_series:
  "sliceTo ''v1.2.0'' 4 = Inr ''v1.2''" "sliceTo ''v1.2.1'' 4 = Inr ''v1.2''"
  "sliceTo ''v1.3.0'' 4 = Inr ''v1.3''"
  by (simp_all add: sliceTo_def)

lemma boldLoop_series:
  assumes m: "runMinorOf a = Inr ma" "runMinorOf b = Inr mb" "runMinorOf c = Inr mc"
  shows "\<exists>out. boldLoop 3 [] [] (rev (seriesRows a b c)) = Inr out \<and>
           map Version out = [''**v1.3.0**'', ''v1.2.1'', ''**v1.2.0**'']"
proof -
  let ?x = "\<lparr>Version = ''v1.2.0'', Runtime = a, Date = ''2021-01-01''\<rparr>"
  let ?y = "\<lparr>Version = ''v1.2.1'', Runtime = b, Date = ''2021-02-01''\<rparr>"
  let ?z = "\<lparr>Version = ''v1.3.0'', Runtime = c, Date = ''2021-03-01''\<rparr>"
  let ?x' = "\<lparr>Version = ''**v1.2.0**'', Runtime = (if ma \<noteq> [] then bold a else a),
              Date = ''2021-01-01''\<rparr>"
  let ?y' = "\<lparr>Version = ''v1.2.1'', Runtime = (if mb \<noteq> ma then bold b else b),
              Date = ''2021-02-01''\<rparr>"
  let ?z' = "\<lparr>Version = ''**v1.3.0**'', Runtime = (if mc \<noteq> mb then bold c else c),
              Date = ''2021-03-01''\<rparr>"
  have 1: "boldLoop (Suc (Suc (Suc 0))) [] [] [?z, ?y, ?x] =
           boldLoop (Suc (Suc 0)) ma ''v1.2'' [?z, ?y, ?x']"
    by (subst boldLoop_step [where rm = ma and sm = "''v1.2''"])
      (simp_all add: m lastDot_series sliceTo_series bold_def)
  have 2: "boldLoop (Suc (Suc 0)) ma ''v1.2'' [?z, ?y, ?x'] =
           boldLoop (Suc 0) mb ''v1.2'' [?z, ?y', ?x']"
    by (subst boldLoop_step [where rm = mb and sm = "''v1.2''"])
      (simp_all add: m lastDot_series sliceTo_series bold_def)
  have 3: "boldLoop (Suc 0) mb ''v1.2'' [?z, ?y', ?x'] = boldLoop 0 mc ''v1.3'' [?z', ?y', ?x']"
    by (subst boldLoop_step [where rm = mc and sm = "''v1.3''"])
      (simp_all add: m lastDot_series sliceTo_series bold_def)
  have "rev (seriesRows a b c) = [?z, ?y, ?x]"
    by (simp add: seriesRows_def)
  then show ?thesis
    unfolding numeral_3_eq_3 by (simp only: 1 2 3) simp
qed

text \<open>
  C7 (as stated): for rows v1.2.0 (2021-01-01), v1.2.1 (2021-02-01) and v1.3.0
  (2021-03-01) the formatting pass emphasises the versions v1.2.0 and v1.3.0 only. The
  claim names no runtimes; with the runtimes left empty the pass panics and emphasises
  nothing.
\<close>

theorem formatRows_series_counterexample:
  "formatRows (seriesRows [] [] []) = Inl Panic"
  by (simp add: formatRows_Panic seriesRows_def dotted_def)

text \<open>
  C7 (amended): for a table made of those three rows, in any order, whose runtimes each
  contain a dot, the formatting pass returns the rows newest first with the version
  column emphasised for v1.3.0 and v1.2.0 and not for v1.2.1.
\<close>

theorem formatRows_series:
  assumes "CHR ''.'' \<in> set a" and "CHR ''.'' \<in> set b" and "CHR ''.'' \<in> set c"
    and "mset rows = mset (seriesRows a b c)"
  shows "\<exists>out. formatRows rows = Inr out \<and>
           map Version out = [''**v1.3.0**'', ''v1.2.1'', ''**v1.2.0**'']"
proof -
  obtain x y z where xyz: "seriesRows a b c = [x, y, z]"
    by (simp add: seriesRows_def)
  then have "mset rows = {#x, y, z#}"
    using assms(4) by simp
  then have s: "sortRows rows = rev (seriesRows a b c)"
    using sortRows_series [OF mset_three, of rows x y z a b c] xyz by simp
  obtain ma where ma: "runMinorOf a = Inr ma"
    using runMinorOf_Inr [OF assms(1)] ..
  obtain mb where mb: "runMinorOf b = Inr mb"
    using runMinorOf_Inr [OF assms(2)] ..
  obtain mc where mc: "runMinorOf c = Inr mc"
    using runMinorOf_Inr [OF assms(3)] ..
  have "formatRows rows = boldLoop 3 [] [] (rev (seriesRows a b c))"
    by (simp add: formatRows_def s xyz numeral_3_eq_3)
  then show ?thesis
    using boldLoop_series [OF ma mb mc] by (simp only:)
qed

theorem formatRows_series_witness:
  "\<exists>out. formatRows (seriesRows ''go1.15'' ''go1.15.8'' ''go1.16.2'') = Inr out \<and>
     map Version out = [''**v1.3.0**'', ''v1.2.1'', ''**v1.2.0**'']"
  using formatRows_series [of "''go1.15''" "''go1.15.8''" "''go1.16.2''"
          "seriesRows ''go1.15'' ''go1.15.8'' ''go1.16.2''"]
  by simp

section \<open>Properties of the release resolver\<close>

lemma decimal_small: "n < 10 \<Longrightarrow> decimal n = [''0123456789'' ! n]"
  by (simp add: decimal.simps)

lemma decimal_big: "\<not> n < 10 \<Longrightarrow> decimal n = decimal (n div 10) @ [''0123456789'' ! (n mod 10)]"
  by (subst decimal.simps) simp

lemma seedRow_date:
  "CreatedAt rel = Some t \<Longrightarrow>
     Date (seedRow rel) =
       appendInt (year t) 4 @ ''-'' @ appendInt (month t) 2 @ ''-'' @ appendInt (month t) 2"
  by (simp add: seedRow_def GetCreatedAt_def)

text \<open>
  C2: the date of the seed record is the creation date of the release as
  \<^verbatim>\<open>YYYY-MM-DD\<close>. The layout of the code is \<^verbatim>\<open>2006-01-01\<close>, which prints the
  month twice and never the day: a release created on 2023-01-12 gets the date
  2023-01-01.
\<close>

theorem seedRow_date_repeats_month:
  "Date (seedRow \<lparr>TagName = Some ''v1.23.1'',
                   CreatedAt = Some \<lparr>year = 2023, month = 1, day = 12\<rparr>,
                   Assets = []\<rparr>) = ''2023-01-01''"
  by (simp add: seedRow_date appendInt_def decimal_small decimal_big)

text \<open>
  C3 (as stated): when the resolution of a release fails after the seed record is built,
  the seed record is still written to the table. It is not: for a release whose archive
  is corrupt the run logs the failure and the table stays empty.
\<close>

theorem failed_release_dropped_counterexample:
  "resolveMissing exampleEnv emptyWorld [] [corruptRelease] =
     Inr (\<lparr>files = [],
           logs = [Checking ''v1.0.0'', Downloading ''syncthing-linux-amd64-v1.0.0.tar.gz'',
                   Skipped ''v1.0.0'' NoBinaryFound]\<rparr>, [])"
  by (simp add: resolveMissing_def corruptRelease_def getReleaseVersion_def exampleEnv_def
      emptyWorld_def addLog_def hasPrefix_def readAll_def filepathExt_def isPathSeparator_def
      getReleaseVersionTarGz_def mergeResult_def)

text \<open>A run over releases that all fail ends with the table it started from.\<close>

lemma all_failed_table_unchanged:
  assumes "\<forall>rel\<in>set rels. TagName rel \<noteq> None"
    and "\<forall>rel\<in>set rels. \<forall>w. isl (snd (getReleaseVersion e w rel))"
  shows "\<exists>w'. syncLoop e seen w table rels = Inr (w', table)"
  using assms
proof (induction rels arbitrary: w)
  case Nil
  show ?case by simp
next
  case (Cons rel rels)
  obtain tag where tag: "TagName rel = Some tag"
    using Cons.prems(1) by auto
  obtain w1 err where res: "getReleaseVersion e (addLog (Checking tag) w) rel = (w1, Inl err)"
    using Cons.prems(2) by (cases "getReleaseVersion e (addLog (Checking tag) w) rel")
      (metis list.set_intros(1) snd_conv sum.collapse(1))
  have ih: "\<exists>w'. syncLoop e seen w0 table rels = Inr (w', table)" for w0
    using Cons.IH Cons.prems by simp
  show ?case
    using ih by (simp add: tag res)
qed

lemma syncLoop_append:
  "syncLoop e seen w table (pre @ post) =
     (case syncLoop e seen w table pre of
        Inl f \<Rightarrow> Inl f
      | Inr (w0, t0) \<Rightarrow> syncLoop e seen w0 t0 post)"
  by (induction pre arbitrary: w table) (auto split: option.splits sum.splits prod.splits)

lemma syncLoop_failed_step:
  assumes "TagName rel = Some tag" and "tag \<notin> set seen"
    and "getReleaseVersion e (addLog (Checking tag) w) rel = (w1, Inl err)"
  shows "syncLoop e seen w table (rel # rels) =
         syncLoop e seen (addLog (Skipped tag err) w1) table rels"
  using assms by simp

text \<open>Every row the loop adds is the result of a resolution that succeeded.\<close>

lemma syncLoop_rows:
  "syncLoop e seen w table rels = Inr (w', table') \<Longrightarrow>
     \<exists>new. table' = table @ new \<and>
       (\<forall>row\<in>set new. \<exists>rel\<in>set rels. \<exists>u u'. getReleaseVersion e u rel = (u', Inr row))"
proof (induction rels arbitrary: w table)
  case Nil
  then show ?case by simp
next
  case (Cons rel rels)
  from Cons.prems obtain tag where tag: "TagName rel = Some tag"
    by (cases "TagName rel") auto
  show ?case
  proof (cases "tag \<in> set seen")
    case True
    with Cons.prems tag have "syncLoop e seen w table rels = Inr (w', table')" by simp
    from Cons.IH [OF this] show ?thesis by auto
  next
    case False
    obtain w1 res where g: "getReleaseVersion e (addLog (Checking tag) w) rel = (w1, res)"
      by (cases "getReleaseVersion e (addLog (Checking tag) w) rel") auto
    show ?thesis
    proof (cases res)
      case (Inl err)
      with Cons.prems tag False g
      have "syncLoop e seen (addLog (Skipped tag err) w1) table rels = Inr (w', table')" by simp
      from Cons.IH [OF this] show ?thesis by auto
    next
      case (Inr row)
      with Cons.prems tag False g
      have "syncLoop e seen w1 (table @ [row]) rels = Inr (w', table')" by simp
      from Cons.IH [OF this] obtain new where new: "table' = (table @ [row]) @ new"
        and rows: "\<forall>r\<in>set new. \<exists>rel\<in>set rels. \<exists>u u'. getReleaseVersion e u rel = (u', Inr r)"
        by blast
      have "\<exists>u u'. getReleaseVersion e u rel = (u', Inr row)"
        using g Inr by blast
      with new rows show ?thesis
        by (intro exI [of _ "row # new"]) auto
    qed
  qed
qed

text \<open>
  C3 (amended): in any run, when the resolution of a release with a tag not yet in the
  table fails, the driver logs the failure with the tag and goes on to the next release
  with the table as it was before that release: no row is appended for it, not even
  its seed record. What \<^verbatim>\<open>main\<close> then saves is what it saves for the rest of the
  run continued from that table.
\<close>

theorem failed_release_skipped:
  assumes "syncLoop e seen w table pre = Inr (w0, t0)"
    and "TagName rel = Some tag" and "tag \<notin> set seen"
    and "getReleaseVersion e (addLog (Checking tag) w0) rel = (w1, Inl err)"
  shows "syncLoop e seen w table (pre @ rel # post) =
           syncLoop e seen (addLog (Skipped tag err) w1) t0 post \<and>
         (loadTable file = Inr table \<and> seen = map Version table \<longrightarrow>
            main e w (Inr (pre @ rel # post)) file dest =
              saveResult file dest (syncLoop e seen (addLog (Skipped tag err) w1) t0 post))"
proof -
  have "syncLoop e seen w table (pre @ rel # post) = syncLoop e seen w0 t0 (rel # post)"
    by (simp only: syncLoop_append assms(1) sum.case prod.case)
  also have "\<dots> = syncLoop e seen (addLog (Skipped tag err) w1) t0 post"
    by (rule syncLoop_failed_step [OF assms(2-4)])
  finally have step: "syncLoop e seen w table (pre @ rel # post) =
      syncLoop e seen (addLog (Skipped tag err) w1) t0 post" .
  have "main e w (Inr (pre @ rel # post)) file dest =
      saveResult file dest (syncLoop e seen (addLog (Skipped tag err) w1) t0 post)"
    if "loadTable file = Inr table" and "seen = map Version table"
    using that step by (simp add: main_def)
  with step show ?thesis by blast
qed

theorem failed_release_skipped_witness:
  "syncLoop exampleEnv [] emptyWorld [] ([zipRelease] @ corruptRelease # []) =
     syncLoop exampleEnv []
       (addLog (Skipped ''v1.0.0'' NoBinaryFound)
         \<lparr>files = [],
            logs = [Checking ''v1.1.0'', Downloading ''syncthing-linux-amd64-v1.1.0.zip'',
                    Checking ''v1.0.0'', Downloading ''syncthing-linux-amd64-v1.0.0.tar.gz'']\<rparr>)
       [\<lparr>Version = ''v1.1.0'', Runtime = ''nested'', Date = ''2023-02-02''\<rparr>] [] \<and>
   main exampleEnv emptyWorld (Inr ([zipRelease] @ corruptRelease # [])) NotExist healthy =
     saveResult NotExist healthy
       (syncLoop exampleEnv []
         (addLog (Skipped ''v1.0.0'' NoBinaryFound)
           \<lparr>files = [],
              logs = [Checking ''v1.1.0'', Downloading ''syncthing-linux-amd64-v1.1.0.zip'',
                      Checking ''v1.0.0'', Downloading ''syncthing-linux-amd64-v1.0.0.tar.gz'']\<rparr>)
         [\<lparr>Version = ''v1.1.0'', Runtime = ''nested'', Date = ''2023-02-02''\<rparr>] [])"
proof -
  let ?w0 = "\<lparr>files = [],
      logs = [Checking ''v1.1.0'', Downloading ''syncthing-linux-amd64-v1.1.0.zip'']\<rparr>"
  let ?t0 = "[\<lparr>Version = ''v1.1.0'', Runtime = ''nested'', Date = ''2023-02-02''\<rparr>]"
  let ?w1 = "\<lparr>files = [],
      logs = [Checking ''v1.1.0'', Downloading ''syncthing-linux-amd64-v1.1.0.zip'',
              Checking ''v1.0.0'', Downloading ''syncthing-linux-amd64-v1.0.0.tar.gz'']\<rparr>"
  have 1: "syncLoop exampleEnv [] emptyWorld [] [zipRelease] = Inr (?w0, ?t0)"
    by code_simp
  have 2: "TagName corruptRelease = Some ''v1.0.0''"
    by (simp add: corruptRelease_def)
  have 3: "''v1.0.0'' \<notin> set []"
    by simp
  have 4: "getReleaseVersion exampleEnv (addLog (Checking ''v1.0.0'') ?w0) corruptRelease =
      (?w1, Inl NoBinaryFound)"
    by code_simp
  have 5: "loadTable NotExist = Inr [] \<and> [] = map Version []"
    by (simp add: loadTable_def)
  show ?thesis
    using failed_release_skipped [OF 1 2 3 4, of "[]" NotExist healthy] 5 by simp
qed

text \<open>
  C4 (as stated): from a zip archive with \<^verbatim>\<open>bin/syncthing\<close> and \<^verbatim>\<open>syncthing\<close>,
  in any order, the top-level entry is extracted. With the nested entry first the
  nested entry is extracted: its directory is \<^verbatim>\<open>bin\<close>, which contains no slash.
\<close>

theorem zip_nested_first_counterexample:
  "getReleaseVersionZip exampleEnv emptyWorld ''nested-first'' =
     (emptyWorld, Inr \<lparr>Version = [], Runtime = ''nested'', Date = []\<rparr>)"
  by (simp add: getReleaseVersionZip_def exampleEnv_def emptyWorld_def pathDir_def pathClean_def
      pathBase_def lastIndexByte_def getVersionFromReader_def ioCopy_def putFile_def osRemove_def
      getVersionFromCommand_def getVersionFromGo_def execFile_def Let_def)

lemma zipLoop_find:
  "zipLoop e w fs =
     (case find eligible fs of
        None \<Rightarrow> (w, Inl NoBinaryFound)
      | Some f \<Rightarrow>
          (case FileOpen f of
             Inl err \<Rightarrow> (w, Inl err)
           | Inr rd \<Rightarrow> getVersionFromReader e w rd))"
  by (induction fs) (auto simp: eligible_def)

text \<open>
  C4 (amended): the zip variant extracts the first entry, in archive order, whose base
  name is \<^verbatim>\<open>syncthing\<close> and whose directory (\<^verbatim>\<open>path.Dir\<close> of its name) contains
  no slash, and fails with the not-found error when there is none.
\<close>

theorem zip_selects_first_eligible:
  "zipNewReader e bs = Inr fs \<Longrightarrow>
   getReleaseVersionZip e w bs =
     (case find eligible fs of
        None \<Rightarrow> (w, Inl NoBinaryFound)
      | Some f \<Rightarrow>
          (case FileOpen f of
             Inl err \<Rightarrow> (w, Inl err)
           | Inr rd \<Rightarrow> getVersionFromReader e w rd))"
  by (simp add: getReleaseVersionZip_def zipLoop_find)

theorem zip_selects_first_eligible_witness:
  "getReleaseVersionZip exampleEnv emptyWorld ''nested-first'' =
     getVersionFromReader exampleEnv emptyWorld (Reader ''nested'' None)"
proof -
  let ?fs = "[\<lparr>FileName = ''bin/syncthing'', FileOpen = Inr (Reader ''nested'' None)\<rparr>,
              \<lparr>FileName = ''syncthing'', FileOpen = Inr (Reader ''top-level'' None)\<rparr>]"
  have z: "zipNewReader exampleEnv ''nested-first'' = Inr ?fs"
    by (simp add: exampleEnv_def)
  have "eligible \<lparr>FileName = ''bin/syncthing'', FileOpen = Inr (Reader ''nested'' None)\<rparr>"
    by (simp add: eligible_def pathDir_def pathClean_def pathBase_def lastIndexByte_def Let_def)
  then show ?thesis
    using zip_selects_first_eligible [OF z, of emptyWorld] by simp
qed

text \<open>
  C5: the temporary file is removed on every exit path of the probe, also when writing
  the bytes fails. When the copy fails the function returns before the removal is
  deferred: the file stays.
\<close>

theorem tempfile_left_after_copy_failure:
  "getVersionFromReader exampleEnv emptyWorld (Reader ''go1.'' (Some (LibError ''unexpected EOF''))) =
     (\<lparr>files = [(''/tmp/syncthing'', ''go1.'')], logs = []\<rparr>, Inl (LibError ''unexpected EOF''))"
  by (simp add: getVersionFromReader_def exampleEnv_def emptyWorld_def ioCopy_def putFile_def)

lemma fileExists_osRemove: "\<not> fileExists (osRemove name w) name"
  by (auto simp: fileExists_def osRemove_def)

lemma tempfile_removed_after_copy:
  assumes "createTemp e (map fst (files w)) = Inr name"
    and "snd (ioCopy e name r (putFile name [] w)) = None"
  shows "\<not> fileExists (fst (getVersionFromReader e w r)) name"
  using assms
  by (auto simp: getVersionFromReader_def fileExists_osRemove
      split: prod.splits option.splits sum.splits)

lemma tempfile_left_when_copy_fails:
  assumes "createTemp e (map fst (files w)) = Inr name"
  shows "fileExists (fst (getVersionFromReader e w (Reader bs (Some err)))) name"
  using assms
  by (simp add: getVersionFromReader_def ioCopy_def putFile_def fileExists_def)

lemma tarLoop_end: "tarLoop e w (TarEnd err) = (w, Inl NoBinaryFound)"
  by simp

text \<open>
  C6: a corrupt archive and a missing entry give different errors in both variants. A
  tar stream with an invalid header gives the same error as a well-formed archive
  without the binary.
\<close>

theorem corrupt_tar_reported_as_not_found:
  "getReleaseVersionTarGz exampleEnv emptyWorld ''corrupt-tar'' = (emptyWorld, Inl NoBinaryFound) \<and>
   getReleaseVersionTarGz exampleEnv emptyWorld ''no-binary-tar'' = (emptyWorld, Inl NoBinaryFound)"
  by (simp add: getReleaseVersionTarGz_def exampleEnv_def pathBase_def lastIndexByte_def Let_def)

lemma corrupt_header_kept_distinct:
  "zipNewReader e bs = Inl err \<Longrightarrow> getReleaseVersionZip e w bs = (w, Inl err)"
  "gzipNewReader e bs = Inl err \<Longrightarrow> getReleaseVersionTarGz e w bs = (w, Inl err)"
  by (simp_all add: getReleaseVersionZip_def getReleaseVersionTarGz_def)

lemma corrupt_tar_stream_conflated:
  "gzipNewReader e bs = Inr (TarEnd err) \<Longrightarrow> getReleaseVersionTarGz e w bs = (w, Inl NoBinaryFound)"
  by (simp add: getReleaseVersionTarGz_def)

section \<open>Properties of saving and loading\<close>

lemma quoteField_escape: "quoteField f = CHR 0x22 # escapeQuotes f @ [CHR 0x22]"
  by (simp add: quoteField_def escapeQuotes_def)

lemma scan_bare:
  assumes "\<forall>c\<in>set f. c \<noteq> CHR '','' \<and> c \<noteq> CHR 0x0A \<and> c \<noteq> CHR 0x22" and "st \<noteq> InQuoted"
  shows "scan st acc buf (f @ t) = scan (if f = [] then st else InBare) acc (buf @ f) t"
  using assms
proof (induction f arbitrary: st buf)
  case Nil
  show ?case by simp
next
  case (Cons c f)
  have "scan st acc buf ((c # f) @ t) = scan InBare acc (buf @ [c]) (f @ t)"
    using Cons.prems by (simp add: scan.simps(2))
  also have "\<dots> = scan (if f = [] then InBare else InBare) acc ((buf @ [c]) @ f) t"
    using Cons.prems by (intro Cons.IH) simp_all
  finally show ?case by simp
qed

lemma scan_comma: "st \<noteq> InQuoted \<Longrightarrow> scan st acc buf (CHR '','' # t) = scan FieldStart (acc @ [buf]) [] t"
  by (simp add: scan.simps(2))

lemma scan_newline: "st \<noteq> InQuoted \<Longrightarrow> scan st acc buf (CHR 0x0A # t) = Inr (acc @ [buf], t)"
  by (simp add: scan.simps(2))

lemma scan_quoted: "scan InQuoted acc buf (escapeQuotes f @ CHR 0x22 # t) = scan InQuoted acc (buf @ f) (CHR 0x22 # t)"
proof (induction f arbitrary: buf)
  case Nil
  show ?case by (simp add: escapeQuotes_def)
next
  case (Cons c f)
  have "scan InQuoted acc buf (escapeQuotes (c # f) @ CHR 0x22 # t) =
        scan InQuoted acc (buf @ [c]) (escapeQuotes f @ CHR 0x22 # t)"
    by (cases "c = CHR 0x22") (simp_all add: escapeQuotes_def scan.simps(2))
  then show ?case
    using Cons.IH [of "buf @ [c]"] by simp
qed

lemma scan_close_comma:
  "scan InQuoted acc buf (CHR 0x22 # CHR '','' # t) = scan FieldStart (acc @ [buf]) [] t"
  by (simp add: scan.simps(2))

lemma scan_close_newline:
  "scan InQuoted acc buf (CHR 0x22 # CHR 0x0A # t) = Inr (acc @ [buf], t)"
  by (simp add: scan.simps(2))

lemma bare_unquoted:
  assumes "\<not> fieldNeedsQuotes f"
  shows "\<forall>c\<in>set f. c \<noteq> CHR '','' \<and> c \<noteq> CHR 0x0A \<and> c \<noteq> CHR 0x22 \<and> c \<noteq> CHR 0x0D"
proof (cases "f = []")
  case True
  then show ?thesis by simp
next
  case False
  with assms have "\<not> list_ex (\<lambda>c. c \<in> set specialBytes) f"
    by (simp add: fieldNeedsQuotes_def split: if_splits)
  then show ?thesis
    by (auto simp: list_ex_iff specialBytes_def)
qed

lemma scan_field_comma:
  "scan FieldStart acc [] (csvField f @ CHR '','' # t) = scan FieldStart (acc @ [f]) [] t"
proof (cases "fieldNeedsQuotes f")
  case True
  then have "scan FieldStart acc [] (csvField f @ CHR '','' # t) =
             scan InQuoted acc [] (escapeQuotes f @ CHR 0x22 # CHR '','' # t)"
    by (simp add: csvField_def quoteField_escape scan.simps(2))
  then show ?thesis
    by (simp add: scan_quoted scan_close_comma)
next
  case False
  then show ?thesis
    using scan_bare [of f FieldStart acc "[]" "CHR '','' # t"] bare_unquoted [OF False]
    by (simp add: csvField_def scan_comma)
qed

lemma scan_field_newline:
  "scan FieldStart acc [] (csvField f @ CHR 0x0A # t) = Inr (acc @ [f], t)"
proof (cases "fieldNeedsQuotes f")
  case True
  then have "scan FieldStart acc [] (csvField f @ CHR 0x0A # t) =
             scan InQuoted acc [] (escapeQuotes f @ CHR 0x22 # CHR 0x0A # t)"
    by (simp add: csvField_def quoteField_escape scan.simps(2))
  then show ?thesis
    by (simp add: scan_quoted scan_close_newline)
next
  case False
  then show ?thesis
    using scan_bare [of f FieldStart acc "[]" "CHR 0x0A # t"] bare_unquoted [OF False]
    by (simp add: csvField_def scan_newline)
qed

lemma scan_record:
  "fs \<noteq> [] \<Longrightarrow> scan FieldStart acc [] (csvWrite fs @ t) = Inr (acc @ fs, t)"
proof (induction fs arbitrary: acc)
  case Nil
  then show ?case by simp
next
  case (Cons f fs)
  show ?case
  proof (cases fs)
    case Nil
    then show ?thesis
      by (simp add: csvWrite_def scan_field_newline)
  next
    case (Cons g gs)
    then have "scan FieldStart acc [] (csvWrite (f # fs) @ t) =
               scan FieldStart (acc @ [f]) [] (csvWrite fs @ t)"
      by (simp add: csvWrite_def scan_field_comma)
    then show ?thesis
      using Cons.IH [of "acc @ [f]"] Cons by simp
  qed
qed

lemma csvField_hd: "f \<noteq> [] \<Longrightarrow> csvField f \<noteq> [] \<and> hd (csvField f) \<noteq> CHR 0x0A"
  using bare_unquoted [of f]
  by (cases f) (auto simp: csvField_def quoteField_def)

lemma csvWrite_hd:
  assumes "fs \<noteq> []" and "hd fs \<noteq> []"
  shows "dropWhile (\<lambda>c. c = CHR 0x0A) (csvWrite fs @ t) = csvWrite fs @ t"
proof -
  obtain f gs where fs: "fs = f # gs" using assms(1) by (cases fs) auto
  then have f: "f \<noteq> []" using assms(2) by simp
  obtain c u where cu: "csvField f = c # u" and c: "c \<noteq> CHR 0x0A"
    using csvField_hd [OF f] by (cases "csvField f") auto
  have "\<exists>v. csvWrite fs @ t = c # v"
    by (cases gs) (simp_all add: fs csvWrite_def cu)
  then show ?thesis using c by auto
qed

lemma csvRead_written:
  assumes "fs \<noteq> []" and "hd fs \<noteq> []" and "fpr = 0 \<or> fpr = length fs"
  shows "csvRead fpr (csvWrite fs @ t) = Inr (fs, length fs, t)"
proof -
  have "csvWrite fs @ t \<noteq> []" by (simp add: csvWrite_def)
  then show ?thesis
    using assms(3) by (auto simp: csvRead_def csvWrite_hd [OF assms(1,2)] scan_record [OF assms(1)])
qed

lemma fromStrings_toStrings: "fromStrings (toStrings r) = Inr (unbold r)"
  by (simp add: fromStrings_def toStrings_def unbold_def)

lemma readLoop_step:
  assumes "csvRead fpr s = Inr (ss, fpr', s')" and "ss \<noteq> []" and "ss ! 0 \<noteq> tableHeader ! 0"
    and "fromStrings ss = Inr row"
  shows "readLoop fpr acc s = readLoop fpr' (acc @ [row]) s'"
  using assms by (subst readLoop.simps) simp

lemma readLoop_skip:
  assumes "csvRead fpr s = Inr (ss, fpr', s')" and "ss \<noteq> []" and "ss ! 0 = tableHeader ! 0"
  shows "readLoop fpr acc s = readLoop fpr' acc s'"
  using assms by (subst readLoop.simps) simp

lemma readLoop_rows:
  assumes "\<forall>r\<in>set rs. Version r \<noteq> [] \<and> Version r \<noteq> ''Version''"
  shows "readLoop 3 acc (concat (map csvWrite (map toStrings rs))) = Inr (acc @ map unbold rs)"
  using assms
proof (induction rs arbitrary: acc)
  case Nil
  show ?case
    by (subst readLoop.simps) (simp add: csvRead_def)
next
  case (Cons r rs)
  let ?rest = "concat (map csvWrite (map toStrings rs))"
  have rd: "csvRead 3 (csvWrite (toStrings r) @ ?rest) = Inr (toStrings r, 3, ?rest)"
    using csvRead_written [of "toStrings r" 3 ?rest] Cons.prems
    by (simp add: toStrings_def)
  have nh: "toStrings r ! 0 \<noteq> tableHeader ! 0"
    using Cons.prems by (simp add: toStrings_def tableHeader_def)
  have ne: "toStrings r \<noteq> []"
    by (simp add: toStrings_def)
  have "readLoop 3 acc (csvWrite (toStrings r) @ ?rest) = readLoop 3 (acc @ [unbold r]) ?rest"
    by (rule readLoop_step [OF rd ne nh fromStrings_toStrings])
  moreover have "readLoop 3 (acc @ [unbold r]) ?rest = Inr ((acc @ [unbold r]) @ map unbold rs)"
    using Cons.prems by (intro Cons.IH) simp
  ultimately show ?case by simp
qed

lemma readLoop_header:
  "readLoop 0 [] (csvWrite tableHeader @ t) = readLoop 3 [] t"
proof -
  have "csvRead 0 (csvWrite tableHeader @ t) = Inr (tableHeader, 3, t)"
    using csvRead_written [of tableHeader 0 t] by (simp add: tableHeader_def)
  then show ?thesis
    by (rule readLoop_skip) (simp_all add: tableHeader_def)
qed

lemma hasCRLF_Cons:
  "hasCRLF (c # s) \<longleftrightarrow> (c = CHR 0x0D \<and> s \<noteq> [] \<and> hd s = CHR 0x0A) \<or> hasCRLF s"
  by (cases s) auto

lemma hasCRLF_append:
  "hasCRLF (a @ b) \<longleftrightarrow>
     hasCRLF a \<or> hasCRLF b \<or> (a \<noteq> [] \<and> b \<noteq> [] \<and> last a = CHR 0x0D \<and> hd b = CHR 0x0A)"
proof (induction a)
  case Nil
  show ?case by simp
next
  case (Cons c a)
  show ?case
  proof (cases "a = []")
    case True
    then show ?thesis by (auto simp: hasCRLF_Cons)
  next
    case False
    have "hasCRLF ((c # a) @ b) \<longleftrightarrow> (c = CHR 0x0D \<and> hd a = CHR 0x0A) \<or> hasCRLF (a @ b)"
      using False by (simp add: hasCRLF_Cons hd_append)
    moreover have "hasCRLF (c # a) \<longleftrightarrow> (c = CHR 0x0D \<and> hd a = CHR 0x0A) \<or> hasCRLF a"
      using False by (simp add: hasCRLF_Cons)
    ultimately show ?thesis
      using False by (auto simp: Cons.IH)
  qed
qed

lemma sealed_append: "sealed a \<Longrightarrow> sealed b \<Longrightarrow> sealed (a @ b)"
  by (cases "b = []") (auto simp: sealed_def hasCRLF_append)

lemma sealed_concat: "\<forall>l\<in>set ls. sealed l \<Longrightarrow> sealed (concat ls)"
  by (induction ls) (simp_all add: sealed_append, simp add: sealed_def)

lemma escapeQuotes_Cons:
  "escapeQuotes (c # f) = (if c = CHR 0x22 then [c, c] else [c]) @ escapeQuotes f"
  by (simp add: escapeQuotes_def)

lemma escapeQuotes_hd: "f \<noteq> [] \<Longrightarrow> escapeQuotes f \<noteq> [] \<and> hd (escapeQuotes f) = hd f"
  by (cases f) (simp_all add: escapeQuotes_Cons)

lemma hasCRLF_escapeQuotes: "\<not> hasCRLF f \<Longrightarrow> \<not> hasCRLF (escapeQuotes f)"
proof (induction f)
  case Nil
  show ?case by (simp add: escapeQuotes_def)
next
  case (Cons c f)
  then have ih: "\<not> hasCRLF (escapeQuotes f)"
    by (simp add: hasCRLF_Cons)
  show ?case
  proof (cases "f = []")
    case True
    then show ?thesis by (simp add: escapeQuotes_def)
  next
    case False
    with Cons.prems ih escapeQuotes_hd [OF False] show ?thesis
      by (auto simp: escapeQuotes_Cons hasCRLF_Cons)
  qed
qed

lemma sealed_csvField: "\<not> hasCRLF f \<Longrightarrow> sealed (csvField f)"
proof (cases "fieldNeedsQuotes f")
  case True
  assume "\<not> hasCRLF f"
  then have "\<not> hasCRLF (escapeQuotes f)" by (rule hasCRLF_escapeQuotes)
  then have "\<not> hasCRLF (CHR 0x22 # escapeQuotes f @ [CHR 0x22])"
    using escapeQuotes_hd [of f]
    by (cases "f = []") (auto simp: hasCRLF_Cons hasCRLF_append escapeQuotes_def)
  with True show ?thesis
    by (simp add: sealed_def csvField_def quoteField_escape)
next
  case False
  assume "\<not> hasCRLF f"
  with False bare_unquoted [OF False] show ?thesis
    by (cases "f = []") (auto simp: sealed_def csvField_def)
qed

lemma sealed_joinComma: "\<forall>f\<in>set fs. sealed f \<Longrightarrow> sealed (joinComma fs)"
proof (induction fs rule: joinComma.induct)
  case 1
  show ?case by (simp add: sealed_def)
next
  case (2 f)
  then show ?case by simp
next
  case (3 f g fs)
  have "sealed '',''" by (simp add: sealed_def)
  with 3 have "sealed (f @ '','' @ joinComma (g # fs))"
    by (intro sealed_append) simp_all
  then show ?case by simp
qed

lemma sealed_csvWrite: "\<forall>f\<in>set fs. \<not> hasCRLF f \<Longrightarrow> sealed (csvWrite fs)"
proof -
  assume "\<forall>f\<in>set fs. \<not> hasCRLF f"
  then have "sealed (joinComma (map csvField fs))"
    by (intro sealed_joinComma) (simp add: sealed_csvField)
  then show ?thesis
    by (auto simp: csvWrite_def sealed_def hasCRLF_append)
qed

lemma normalizeCRLF_sealed: "sealed s \<Longrightarrow> normalizeCRLF s = s"
proof (induction s rule: normalizeCRLF.induct)
  case 1
  show ?case by simp
next
  case (2 c)
  then show ?case by (simp add: sealed_def)
next
  case (3 c d s)
  then show ?case by (auto simp: sealed_def)
qed

lemma boldLoop_rel:
  assumes "boldLoop n p q rows = Inr out" and "n \<le> length rows"
  shows "length out = length rows \<and>
         (\<forall>i<length rows. if i < n then boldRel (rows ! i) (out ! i) else out ! i = rows ! i)"
  using assms
proof (induction n arbitrary: p q rows)
  case 0
  then show ?case by simp
next
  case (Suc n)
  let ?r = "rows ! n"
  obtain rm where rm: "runMinorOf (Runtime ?r) = Inr rm"
    using Suc.prems(1) by (cases "runMinorOf (Runtime ?r)") (simp_all add: boldLoop.simps(2))
  obtain sm where sm: "sliceTo (Version ?r) (lastIndexByte (Version ?r) CHR ''.'') = Inr sm"
    using Suc.prems(1) rm
    by (cases "sliceTo (Version ?r) (lastIndexByte (Version ?r) CHR ''.'')")
      (simp_all add: boldLoop.simps(2) Let_def split: if_splits)
  define r2 where "r2 = \<lparr>Version = (if sm \<noteq> q then bold (Version ?r) else Version ?r),
              Runtime = (if rm \<noteq> p then bold (Runtime ?r) else Runtime ?r),
              Date = Date ?r\<rparr>"
  have rel: "boldRel ?r r2"
    by (simp add: boldRel_def r2_def)
  have n: "n < length rows" using Suc.prems(2) by simp
  have "boldLoop n rm sm (rows[n := r2]) = Inr out"
    using Suc.prems(1) unfolding r2_def by (simp only: boldLoop_step [OF rm sm])
  from Suc.IH [OF this] n
  have len: "length out = length rows"
    and lt: "\<And>i. i < n \<Longrightarrow> boldRel (rows ! i) (out ! i)"
    and eq: "out ! n = r2"
    and gt: "\<And>i. n < i \<Longrightarrow> i < length rows \<Longrightarrow> out ! i = rows ! i"
    by (simp_all, (metis length_list_update less_imp_le_nat less_trans nat_neq_iff nth_list_update_neq not_less)+)
  show ?case
  proof (intro conjI allI impI)
    show "length out = length rows" using len .
  next
    fix i assume i: "i < length rows"
    consider "i < n" | "i = n" | "n < i" by linarith
    then show "if i < Suc n then boldRel (rows ! i) (out ! i) else out ! i = rows ! i"
    proof cases
      case 1
      then show ?thesis using lt by simp
    next
      case 2
      then show ?thesis using eq rel by simp
    next
      case 3
      then show ?thesis using gt i by simp
    qed
  qed
qed

lemma boldLoop_not_Failed: "boldLoop n p q rows \<noteq> Inl (Failed e)"
proof (induction n arbitrary: p q rows)
  case 0
  show ?case by simp
next
  case (Suc n)
  show ?case
    using Suc.IH
    by (auto simp: boldLoop.simps(2) Let_def sliceTo_def runMinorOf_def
        split: sum.splits prod.splits if_splits)
qed

lemma formatRows_rel:
  assumes "\<forall>r\<in>set rows. dotted r"
  shows "\<exists>out. formatRows rows = Inr out \<and> list_all2 boldRel (sortRows rows) out"
proof -
  have "formatRows rows \<noteq> Inl Panic"
    using assms by (simp add: formatRows_Panic)
  moreover have "formatRows rows \<noteq> Inl (Failed e)" for e
    by (simp add: formatRows_def Let_def boldLoop_not_Failed)
  ultimately obtain out where out: "formatRows rows = Inr out"
    by (cases "formatRows rows") (metis fault.exhaust, blast)
  then have "boldLoop (length (sortRows rows)) [] [] (sortRows rows) = Inr out"
    by (simp add: formatRows_def Let_def)
  from boldLoop_rel [OF this] have "list_all2 boldRel (sortRows rows) out"
    by (simp add: list_all2_conv_all_nth)
  with out show ?thesis by blast
qed

lemma trim_plain:
  assumes "f = [] \<or> (hd f \<noteq> CHR ''*'' \<and> last f \<noteq> CHR ''*'')"
  shows "trim f ''*'' = f"
proof (cases "f = []")
  case True
  then show ?thesis by (simp add: trim_def)
next
  case False
  with assms have h: "hd f \<noteq> CHR ''*''" and l: "last f \<noteq> CHR ''*''" by auto
  have 1: "dropWhile (\<lambda>c. c \<in> set ''*'') f = f"
    using False h by (cases f) auto
  have 2: "dropWhile (\<lambda>c. c \<in> set ''*'') (rev f) = rev f"
    using False l by (cases "rev f") (auto simp: last_rev [symmetric] simp del: last_rev)
  show ?thesis by (simp only: trim_def 1 2 rev_rev_ident)
qed

lemma trim_bold: "trim (bold f) ''*'' = trim f ''*''"
proof -
  let ?P = "\<lambda>c. c \<in> set ''*''"
  let ?g = "dropWhile ?P f"
  have a: "dropWhile ?P (bold f) = dropWhile ?P (f @ ''**'')"
    by (simp add: bold_def)
  show ?thesis
  proof (cases "?g = []")
    case True
    then have all: "\<forall>c\<in>set f. ?P c" by (simp add: dropWhile_eq_Nil_conv)
    then have b: "dropWhile ?P (f @ ''**'') = []"
      by (simp add: dropWhile_eq_Nil_conv)
    show ?thesis by (simp only: trim_def a b True)
  next
    case False
    then obtain x where x: "x \<in> set f" "\<not> ?P x"
      by (auto simp: dropWhile_eq_Nil_conv)
    then have "dropWhile ?P (f @ ''**'') = ?g @ ''**''"
      by (simp add: dropWhile_append1)
    then have "trim (bold f) ''*'' = rev (dropWhile ?P (rev (?g @ ''**'')))"
      by (simp only: trim_def a)
    also have "\<dots> = rev (dropWhile ?P (rev ?g))"
      by simp
    finally show ?thesis by (simp add: trim_def)
  qed
qed

lemma hasCRLF_bold: "hasCRLF (bold f) = hasCRLF f"
proof -
  have "hasCRLF (''**'' @ (f @ ''**'')) = hasCRLF (f @ ''**'')"
    by (subst hasCRLF_append) (simp add: hd_append)
  also have "\<dots> = hasCRLF f"
    by (subst hasCRLF_append) simp
  finally show ?thesis by (simp add: bold_def)
qed

lemma boldRel_unbold:
  assumes "boldRel r r'" and "plainRow r"
  shows "unbold r' = r"
proof -
  have "trim g ''*'' = f" if "g = f \<or> g = bold f" and "plainField f" for f g
    using that trim_plain [of f] by (auto simp: trim_bold plainField_def)
  then show ?thesis
    using assms by (cases r) (auto simp: boldRel_def plainRow_def unbold_def)
qed

lemma boldRel_fields:
  assumes "boldRel r r'" and "plainRow r"
  shows "\<forall>f\<in>set (toStrings r'). \<not> hasCRLF f"
  using assms
  by (auto simp: boldRel_def plainRow_def plainField_def toStrings_def hasCRLF_bold)

lemma boldRel_Version:
  assumes "boldRel r r'" and "dotted r"
  shows "Version r' \<noteq> [] \<and> Version r' \<noteq> ''Version''"
proof -
  have "CHR ''.'' \<in> set (Version r')"
    using assms by (auto simp: boldRel_def dotted_def bold_def)
  then show ?thesis by auto
qed

lemma mset_insertRow: "mset (insertRow r xs) = add_mset r (mset xs)"
  by (induction xs) simp_all

lemma mset_sortRows: "mset (sortRows rows) = mset rows"
  by (induction rows) (simp_all add: sortRows_def mset_insertRow)

text \<open>
  C9 (as stated): for every table with unique versions and no emphasis markers at the
  ends of its fields, loading what save wrote gives the rows back. A carriage return
  before a line feed inside a field is lost on the way, and a table with a version
  without a dot is not saved at all.
\<close>

theorem save_load_counterexample:
  "saveThenLoad crlfTable =
     Inr [\<lparr>Version = ''v1.'' @ [CHR 0x0A] @ ''0'', Runtime = ''go1.2'', Date = ''2021-01-01''\<rparr>] \<and>
   saveThenLoad [\<lparr>Version = ''v1'', Runtime = ''go1.2'', Date = ''2021-01-01''\<rparr>] = Inl Panic"
  by code_simp

text \<open>
  C9 (amended): for every table whose versions and runtimes all contain a dot and whose
  fields have no emphasis marker at either end and no carriage return directly before a
  line feed, loading what save wrote succeeds and gives the same rows, each as often as
  in the table.
\<close>

theorem save_load_roundtrip:
  assumes "\<forall>r\<in>set rows. CHR ''.'' \<in> set (Version r) \<and> CHR ''.'' \<in> set (Runtime r)"
    and "\<forall>r\<in>set rows. plainRow r"
  shows "\<exists>rows'. saveThenLoad rows = Inr rows' \<and> mset rows' = mset rows"
proof -
  have d: "\<forall>r\<in>set rows. dotted r"
    using assms(1) by (simp add: dotted_def)
  obtain out where out: "formatRows rows = Inr out"
    and rel: "list_all2 boldRel (sortRows rows) out"
    using formatRows_rel [OF d] by blast
  have srt: "\<forall>r\<in>set (sortRows rows). dotted r \<and> plainRow r"
    using d assms(2) by (simp add: set_sortRows)
  have each: "\<forall>r'\<in>set out. \<exists>r\<in>set (sortRows rows). boldRel r r'"
    using rel by (metis in_set_conv_nth list_all2_conv_all_nth)
  have u: "map unbold out = sortRows rows"
  proof (rule nth_equalityI)
    show "length (map unbold out) = length (sortRows rows)"
      using rel by (simp add: list_all2_lengthD)
  next
    fix i assume "i < length (map unbold out)"
    then have i: "i < length out" by simp
    then have "boldRel (sortRows rows ! i) (out ! i)" and "sortRows rows ! i \<in> set (sortRows rows)"
      using rel by (simp_all add: list_all2_conv_all_nth)
    then show "map unbold out ! i = sortRows rows ! i"
      using srt i by (simp add: boldRel_unbold)
  qed
  have v: "\<forall>r'\<in>set out. Version r' \<noteq> [] \<and> Version r' \<noteq> ''Version''"
    using each srt boldRel_Version by blast
  have c: "\<forall>r'\<in>set out. \<forall>f\<in>set (toStrings r'). \<not> hasCRLF f"
    using each srt boldRel_fields by blast
  let ?body = "concat (map csvWrite (map toStrings out))"
  let ?text = "csvWrite tableHeader @ ?body"
  have w: "writeTable None rows = Inr ?text"
    by (simp add: writeTable_def out)
  have "\<forall>l\<in>set (map csvWrite (tableHeader # map toStrings out)). sealed l"
    using c by (auto simp: tableHeader_def intro!: sealed_csvWrite)
  then have "sealed (concat (map csvWrite (tableHeader # map toStrings out)))"
    by (rule sealed_concat)
  then have "normalizeCRLF ?text = ?text"
    using normalizeCRLF_sealed by simp
  then have "readTable ?text = Inr (map unbold out)"
    using readLoop_rows [OF v, of "[]"] by (simp add: readTable_def readLoop_header)
  then have "saveThenLoad rows = Inr (sortRows rows)"
    by (simp add: saveThenLoad_def w u)
  then show ?thesis
    by (simp add: mset_sortRows)
qed

theorem save_load_roundtrip_witness:
  "\<exists>rows'. saveThenLoad (seriesRows ''go1.15'' ''go1.15.8'' ''go1.16.2'') = Inr rows' \<and>
     mset rows' = mset (seriesRows ''go1.15'' ''go1.15.8'' ''go1.16.2'')"
  using save_load_roundtrip [of "seriesRows ''go1.15'' ''go1.15.8'' ''go1.16.2''"]
  by (simp add: seriesRows_def plainRow_def plainField_def)

end
